theory Spec2Isabelle
  imports Complex_Main "HOL-Library.Word" "HOL-Library.Sublist"
begin

text \<open>
  A Telegram bot that turns a text into quiz polls with the help of a language model.
  This theory follows its message handler: lines 208 to 388 of \<open>src/index.ts\<close>, the later
  of the two forms of the handler that the file holds. The handler is a function from
  the message and the world around it (the registry of model names, the language
  model, the chat transport) to the list of what it does, in order.
\<close>

section \<open>JavaScript strings\<close>

text \<open>
  A JavaScript string is a sequence of 16-bit code units. \<open>js\<close> embeds a literal
  of the source (all of them are ASCII) into that type.
\<close>

type_synonym code_unit = "16 word"

type_synonym jstring = "code_unit list"

definition U :: "char \<Rightarrow> code_unit" where
  "U c = of_char c"

definition js :: "string \<Rightarrow> jstring" where
  "js s = map U s"

text \<open>\<open>String.prototype.indexOf\<close> and \<open>lastIndexOf\<close> for a search string of one
  code unit: the index of the first (last) occurrence, or \<open>-1\<close>.\<close>

fun indexOf :: "jstring \<Rightarrow> code_unit \<Rightarrow> int" where
  "indexOf [] c = -1"
| "indexOf (x # xs) c =
     (if x = c then 0 else (let i = indexOf xs c in if i < 0 then -1 else i + 1))"

fun lastIndexOf :: "jstring \<Rightarrow> code_unit \<Rightarrow> int" where
  "lastIndexOf [] c = -1"
| "lastIndexOf (x # xs) c =
     (let i = lastIndexOf xs c in if 0 \<le> i then i + 1 else if x = c then 0 else -1)"

text \<open>\<open>String.prototype.substring(start, end)\<close>: both arguments are clamped to
  \<open>[0, length]\<close>, and swapped when the first is the larger.\<close>

definition substring :: "jstring \<Rightarrow> int \<Rightarrow> int \<Rightarrow> jstring" where
  "substring s start end' =
     (let len = int (length s);
          finalStart = min (max start 0) len;
          finalEnd = min (max end' 0) len;
          from = min finalStart finalEnd;
          to = max finalStart finalEnd
      in take (nat (to - from)) (drop (nat from) s))"

text \<open>\<open>slice(0, n)\<close> with a constant \<open>n \<ge> 0\<close>, on a string and on an array alike.\<close>

definition slice0 :: "nat \<Rightarrow> 'a list \<Rightarrow> 'a list" where
  "slice0 n xs = take n xs"

definition startsWith :: "jstring \<Rightarrow> jstring \<Rightarrow> bool" where
  "startsWith s p = (take (length p) s = p)"

text \<open>\<open>String.prototype.split\<close> with a separator of one code unit: never empty,
  and two separators in a row give an empty piece.\<close>

fun split :: "jstring \<Rightarrow> code_unit \<Rightarrow> jstring list" where
  "split [] sep = [[]]"
| "split (c # cs) sep =
     (if c = sep then [] # split cs sep
      else (case split cs sep of [] \<Rightarrow> [[c]] | w # ws \<Rightarrow> (c # w) # ws))"

fun join :: "jstring list \<Rightarrow> jstring \<Rightarrow> jstring" where
  "join [] sep = []"
| "join [x] sep = x"
| "join (x # y # ys) sep = x @ sep @ join (y # ys) sep"

fun includes_str :: "jstring \<Rightarrow> jstring \<Rightarrow> bool" where
  "includes_str [] p = (p = [])"
| "includes_str (c # cs) p = (startsWith (c # cs) p \<or> includes_str cs p)"

text \<open>The decimal rendering of a natural number, as a template literal prints
  \<open>questions.length\<close>.\<close>

fun decimal :: "nat \<Rightarrow> jstring" where
  "decimal n = (if n < 10 then [of_nat (48 + n)] else decimal (n div 10) @ [of_nat (48 + n mod 10)])"

declare decimal.simps [simp del]

section \<open>JSON values and \<open>JSON.parse\<close>\<close>

text \<open>
  A number keeps the value its literal denotes, as mantissa and decimal exponent
  (\<open>m \<times> 10\<^sup>e\<close>). A \<open>JObject\<close> lists the members in the order of the text.
\<close>

datatype json =
    JNull
  | JBool bool
  | JNumber int int
  | JString jstring
  | JArray "json list"
  | JObject "(jstring \<times> json) list"

datatype token =
    LBrace | RBrace | LBracket | RBracket | Colon | Comma
  | TString jstring
  | TNumber int int
  | TTrue | TFalse | TNull

definition is_ws :: "code_unit \<Rightarrow> bool" where
  "is_ws c = (c = 0x20 \<or> c = 0x09 \<or> c = 0x0A \<or> c = 0x0D)"

definition is_digit :: "code_unit \<Rightarrow> bool" where
  "is_digit c = (0x30 \<le> c \<and> c \<le> 0x39)"

definition digit_val :: "code_unit \<Rightarrow> nat" where
  "digit_val c = unat c - 48"

definition hex_val :: "code_unit \<Rightarrow> nat option" where
  "hex_val c =
     (if 0x30 \<le> c \<and> c \<le> 0x39 then Some (unat c - 48)
      else if 0x41 \<le> c \<and> c \<le> 0x46 then Some (unat c - 55)
      else if 0x61 \<le> c \<and> c \<le> 0x66 then Some (unat c - 87)
      else None)"

definition hex4 :: "code_unit \<Rightarrow> code_unit \<Rightarrow> code_unit \<Rightarrow> code_unit \<Rightarrow> code_unit option" where
  "hex4 a b c d =
     (case (hex_val a, hex_val b, hex_val c, hex_val d) of
        (Some p, Some q, Some r, Some s) \<Rightarrow> Some (of_nat (((p * 16 + q) * 16 + r) * 16 + s))
      | _ \<Rightarrow> None)"

text \<open>The one-letter escapes of a JSON string.\<close>

definition unescape :: "code_unit \<Rightarrow> code_unit option" where
  "unescape e =
     (if e = 0x22 then Some 0x22
      else if e = 0x5C then Some 0x5C
      else if e = U CHR ''/'' then Some 0x2F
      else if e = U CHR ''b'' then Some 0x08
      else if e = U CHR ''f'' then Some 0x0C
      else if e = U CHR ''n'' then Some 0x0A
      else if e = U CHR ''r'' then Some 0x0D
      else if e = U CHR ''t'' then Some 0x09
      else None)"

text \<open>\<open>lex_string\<close> reads a string after its opening quote and returns its value with
  the text after the closing quote. A raw control character is refused.\<close>

fun lex_string :: "jstring \<Rightarrow> (jstring \<times> jstring) option" where
  "lex_string [] = None"
| "lex_string (c # cs) =
     (if c = 0x22 then Some ([], cs)
      else if c = 0x5C then
        (case cs of
           [] \<Rightarrow> None
         | e # cs1 \<Rightarrow>
             if e = 0x75 then
               (case cs1 of
                  h1 # h2 # h3 # h4 # cs2 \<Rightarrow>
                    (case hex4 h1 h2 h3 h4 of
                       None \<Rightarrow> None
                     | Some u \<Rightarrow> map_option (\<lambda>(s, r). (u # s, r)) (lex_string cs2))
                | _ \<Rightarrow> None)
             else
               (case unescape e of
                  None \<Rightarrow> None
                | Some u \<Rightarrow> map_option (\<lambda>(s, r). (u # s, r)) (lex_string cs1)))
      else if c < 0x20 then None
      else map_option (\<lambda>(s, r). (c # s, r)) (lex_string cs))"

definition digits_val :: "jstring \<Rightarrow> nat" where
  "digits_val ds = foldl (\<lambda>acc d. acc * 10 + digit_val d) 0 ds"

text \<open>\<open>lex_number\<close> reads \<open>-? int frac? exp?\<close> and returns mantissa, exponent and the
  text that follows. An integer part with a leading zero, a fraction or an exponent
  without digits is no number.\<close>

definition lex_number :: "jstring \<Rightarrow> (int \<times> int \<times> jstring) option" where
  "lex_number s =
     (let neg = (s \<noteq> [] \<and> hd s = 0x2D);
          s1 = (if neg then tl s else s);
          ip = takeWhile is_digit s1;
          s2 = dropWhile is_digit s1;
          has_frac = (s2 \<noteq> [] \<and> hd s2 = 0x2E);
          fp = (if has_frac then takeWhile is_digit (tl s2) else []);
          s3 = (if has_frac then dropWhile is_digit (tl s2) else s2);
          has_exp = (s3 \<noteq> [] \<and> (hd s3 = 0x65 \<or> hd s3 = 0x45));
          s4 = (if has_exp then tl s3 else s3);
          eneg = (has_exp \<and> s4 \<noteq> [] \<and> hd s4 = 0x2D);
          s5 = (if has_exp \<and> s4 \<noteq> [] \<and> (hd s4 = 0x2D \<or> hd s4 = 0x2B) then tl s4 else s4);
          ep = (if has_exp then takeWhile is_digit s5 else []);
          s6 = (if has_exp then dropWhile is_digit s5 else s3);
          m = int (digits_val (ip @ fp));
          e = int (digits_val ep)
      in if ip = [] \<or> (1 < length ip \<and> hd ip = 0x30) \<or> (has_frac \<and> fp = []) \<or> (has_exp \<and> ep = [])
         then None
         else Some (if neg then - m else m, (if eneg then - e else e) - int (length fp), s6))"

text \<open>What a lexer leaves is a proper suffix of what it was given.\<close>

lemma lex_string_suffix:
  "lex_string cs = Some (s, r) \<Longrightarrow> \<exists>pre. cs = pre @ 0x22 # r"
proof (induction cs arbitrary: s r rule: lex_string.induct)
  case 1
  then show ?case by simp
next
  case (2 c cs)
  show ?case
  proof (cases "c = 0x22")
    case True
    with "2.prems" show ?thesis by auto
  next
    case quote: False
    show ?thesis
    proof (cases "c = 0x5C")
      case False
      with quote "2.prems" obtain s' where "lex_string cs = Some (s', r)"
        by (auto split: if_splits)
      with "2.IH"(3) [OF quote False] quote False "2.prems" obtain pre where "cs = pre @ 0x22 # r"
        by (auto split: if_splits)
      then have "c # cs = (c # pre) @ 0x22 # r" by simp
      then show ?thesis by blast
    next
      case True
      with quote "2.prems" obtain e cs1 where cs: "cs = e # cs1"
        by (cases cs) auto
      show ?thesis
      proof (cases "e = 0x75")
        case False
        with quote True cs "2.prems" obtain u s' where
          "unescape e = Some u" "lex_string cs1 = Some (s', r)"
          by (auto split: option.splits)
        with "2.IH"(2) [OF quote True cs False] obtain pre where "cs1 = pre @ 0x22 # r"
          by blast
        with cs have "c # cs = (c # e # pre) @ 0x22 # r" by simp
        then show ?thesis by blast
      next
        case u: True
        with quote True cs "2.prems" obtain h1 h2 h3 h4 cs2 where
          cs1: "cs1 = h1 # h2 # h3 # h4 # cs2"
          by (auto split: list.splits)
        with quote True cs u "2.prems" obtain v s' where
          "hex4 h1 h2 h3 h4 = Some v" "lex_string cs2 = Some (s', r)"
          by (auto split: option.splits)
        with "2.IH"(1) [OF quote True cs u] cs1 obtain pre where "cs2 = pre @ 0x22 # r"
          by blast
        with cs cs1 have "c # cs = (c # e # h1 # h2 # h3 # h4 # pre) @ 0x22 # r" by simp
        then show ?thesis by blast
      qed
    qed
  qed
qed

lemma lex_string_shorter:
  "lex_string cs = Some (s, r) \<Longrightarrow> length r < length cs"
  using lex_string_suffix [of cs s r] by auto

lemma dropWhile_digits_split:
  "takeWhile is_digit s \<noteq> [] \<Longrightarrow>
   \<exists>pre. s = pre @ dropWhile is_digit s \<and> pre \<noteq> [] \<and> is_digit (last pre)"
proof -
  assume ne: "takeWhile is_digit s \<noteq> []"
  have "last (takeWhile is_digit s) \<in> set (takeWhile is_digit s)"
    using ne by simp
  then have "is_digit (last (takeWhile is_digit s))"
    by (rule set_takeWhileD [THEN conjunct2])
  moreover have "s = takeWhile is_digit s @ dropWhile is_digit s" by simp
  ultimately show ?thesis using ne by blast
qed

lemma lex_number_suffix:
  assumes "lex_number s = Some (m, e, r)"
  shows "\<exists>pre. s = pre @ r \<and> pre \<noteq> [] \<and> is_digit (last pre)"
proof -
  define neg where "neg = (s \<noteq> [] \<and> hd s = 0x2D)"
  define s1 where "s1 = (if neg then tl s else s)"
  define ip where "ip = takeWhile is_digit s1"
  define s2 where "s2 = dropWhile is_digit s1"
  define has_frac where "has_frac = (s2 \<noteq> [] \<and> hd s2 = 0x2E)"
  define fp where "fp = (if has_frac then takeWhile is_digit (tl s2) else [])"
  define s3 where "s3 = (if has_frac then dropWhile is_digit (tl s2) else s2)"
  define has_exp where "has_exp = (s3 \<noteq> [] \<and> (hd s3 = 0x65 \<or> hd s3 = 0x45))"
  define s4 where "s4 = (if has_exp then tl s3 else s3)"
  define s5 where "s5 = (if has_exp \<and> s4 \<noteq> [] \<and> (hd s4 = 0x2D \<or> hd s4 = 0x2B) then tl s4 else s4)"
  define ep where "ep = (if has_exp then takeWhile is_digit s5 else [])"
  define s6 where "s6 = (if has_exp then dropWhile is_digit s5 else s3)"
  note defs = neg_def s1_def ip_def s2_def has_frac_def fp_def s3_def has_exp_def s4_def
    s5_def ep_def s6_def
  from assms have ok: "ip \<noteq> []" "has_frac \<Longrightarrow> fp \<noteq> []" "has_exp \<Longrightarrow> ep \<noteq> []" and r: "r = s6"
    unfolding lex_number_def Let_def defs [symmetric]
    by (auto split: if_splits)
  have "s1 = drop (if neg then 1 else 0) s"
    unfolding s1_def by (cases s) auto
  then have "s = take (if neg then 1 else 0) s @ s1" by simp
  then obtain p0 where p0: "s = p0 @ s1" ..
  from ok(1) obtain p1 where p1: "s1 = p1 @ s2" "p1 \<noteq> []" "is_digit (last p1)"
    unfolding ip_def s2_def using dropWhile_digits_split by blast
  have "\<exists>p2. s2 = p2 @ s3 \<and> (p2 = [] \<or> is_digit (last p2))"
  proof (cases has_frac)
    case False
    then show ?thesis by (simp add: s3_def)
  next
    case True
    then have "takeWhile is_digit (tl s2) \<noteq> []" using ok(2) by (simp add: fp_def)
    then obtain q where q: "tl s2 = q @ s3" "q \<noteq> []" "is_digit (last q)"
      using dropWhile_digits_split [of "tl s2"] True by (auto simp: s3_def)
    from True have "s2 \<noteq> []" by (simp add: has_frac_def)
    then have "s2 = hd s2 # tl s2" by simp
    with q have "s2 = (hd s2 # q) @ s3 \<and> is_digit (last (hd s2 # q))" by simp
    then show ?thesis by blast
  qed
  then obtain p2 where p2: "s2 = p2 @ s3" "p2 = [] \<or> is_digit (last p2)" by blast
  have "\<exists>p3. s3 = p3 @ s6 \<and> (p3 = [] \<or> is_digit (last p3))"
  proof (cases has_exp)
    case False
    then show ?thesis by (simp add: s6_def)
  next
    case True
    then have "takeWhile is_digit s5 \<noteq> []" using ok(3) by (simp add: ep_def)
    then obtain q where q: "s5 = q @ s6" "q \<noteq> []" "is_digit (last q)"
      using dropWhile_digits_split [of s5] True by (auto simp: s6_def)
    from True have "s3 \<noteq> []" by (simp add: has_exp_def)
    then have "s3 = hd s3 # tl s3" by simp
    with True have a: "s3 = hd s3 # s4" by (simp add: s4_def)
    define k :: nat where "k = (if has_exp \<and> s4 \<noteq> [] \<and> (hd s4 = 0x2D \<or> hd s4 = 0x2B) then 1 else 0)"
    have "s5 = drop k s4"
      unfolding s5_def k_def by (cases s4) auto
    then have "s4 = take k s4 @ s5" by simp
    then obtain sg where b: "s4 = sg @ s5" ..
    from a b q have "s3 = (hd s3 # sg @ q) @ s6 \<and> is_digit (last (hd s3 # sg @ q))" by simp
    then show ?thesis by blast
  qed
  then obtain p3 where p3: "s3 = p3 @ s6" "p3 = [] \<or> is_digit (last p3)" by blast
  have "s = (p0 @ p1 @ p2 @ p3) @ r" using p0 p1(1) p2(1) p3(1) r by simp
  moreover have "p0 @ p1 @ p2 @ p3 \<noteq> []" using p1(2) by simp
  moreover have "is_digit (last (p0 @ p1 @ p2 @ p3))"
    using p1(2,3) p2(2) p3(2) by (auto simp: last_append)
  ultimately show ?thesis by blast
qed

lemma lex_number_shorter:
  "lex_number s = Some (m, e, r) \<Longrightarrow> length r < length s"
  using lex_number_suffix [of s m e r] by auto

text \<open>The tokens of a JSON text; \<open>None\<close> when a piece of it is no token.\<close>

function tokenize :: "jstring \<Rightarrow> token list option" where
  "tokenize [] = Some []"
| "tokenize (c # cs) =
     (if is_ws c then tokenize cs
      else if c = 0x7B then map_option ((#) LBrace) (tokenize cs)
      else if c = 0x7D then map_option ((#) RBrace) (tokenize cs)
      else if c = 0x5B then map_option ((#) LBracket) (tokenize cs)
      else if c = 0x5D then map_option ((#) RBracket) (tokenize cs)
      else if c = 0x3A then map_option ((#) Colon) (tokenize cs)
      else if c = 0x2C then map_option ((#) Comma) (tokenize cs)
      else if c = 0x22 then
        (case lex_string cs of
           None \<Rightarrow> None
         | Some (s, r) \<Rightarrow> map_option ((#) (TString s)) (tokenize r))
      else if c = 0x2D \<or> is_digit c then
        (case lex_number (c # cs) of
           None \<Rightarrow> None
         | Some (m, e, r) \<Rightarrow> map_option ((#) (TNumber m e)) (tokenize r))
      else if startsWith (c # cs) (js ''true'') then
        map_option ((#) TTrue) (tokenize (drop 3 cs))
      else if startsWith (c # cs) (js ''false'') then
        map_option ((#) TFalse) (tokenize (drop 4 cs))
      else if startsWith (c # cs) (js ''null'') then
        map_option ((#) TNull) (tokenize (drop 3 cs))
      else None)"
  by pat_completeness auto
termination
  by (relation "measure length")
    (auto dest: lex_string_shorter lex_number_shorter simp: less_Suc_eq)

text \<open>
  The parser runs over the tokens with a stack of the containers that are open: an
  array with the elements read so far, an object with its members and the key whose
  value is being read. \<open>parse_value\<close> expects a value, \<open>parse_after\<close> has just read one.
\<close>

datatype frame =
    FArr "json list"
  | FObj "(jstring \<times> json) list" jstring

fun parse_value :: "frame list \<Rightarrow> token list \<Rightarrow> json option"
  and parse_after :: "json \<Rightarrow> frame list \<Rightarrow> token list \<Rightarrow> json option" where
  "parse_value st [] = None"
| "parse_value st (t # ts) =
     (case t of
        TString s \<Rightarrow> parse_after (JString s) st ts
      | TNumber m e \<Rightarrow> parse_after (JNumber m e) st ts
      | TTrue \<Rightarrow> parse_after (JBool True) st ts
      | TFalse \<Rightarrow> parse_after (JBool False) st ts
      | TNull \<Rightarrow> parse_after JNull st ts
      | LBracket \<Rightarrow>
          (case ts of
             RBracket # ts1 \<Rightarrow> parse_after (JArray []) st ts1
           | _ \<Rightarrow> parse_value (FArr [] # st) ts)
      | LBrace \<Rightarrow>
          (case ts of
             RBrace # ts1 \<Rightarrow> parse_after (JObject []) st ts1
           | TString k # Colon # ts1 \<Rightarrow> parse_value (FObj [] k # st) ts1
           | _ \<Rightarrow> None)
      | _ \<Rightarrow> None)"
| "parse_after v [] ts = (if ts = [] then Some v else None)"
| "parse_after v (FArr acc # st) ts =
     (case ts of
        Comma # ts1 \<Rightarrow> parse_value (FArr (v # acc) # st) ts1
      | RBracket # ts1 \<Rightarrow> parse_after (JArray (rev (v # acc))) st ts1
      | _ \<Rightarrow> None)"
| "parse_after v (FObj acc k # st) ts =
     (case ts of
        Comma # TString k' # Colon # ts1 \<Rightarrow> parse_value (FObj ((k, v) # acc) k' # st) ts1
      | RBrace # ts1 \<Rightarrow> parse_after (JObject (rev ((k, v) # acc))) st ts1
      | _ \<Rightarrow> None)"

text \<open>\<open>JSON.parse\<close>: \<open>None\<close> stands for the \<open>SyntaxError\<close> it throws.\<close>

definition JSON_parse :: "jstring \<Rightarrow> json option" where
  "JSON_parse s = (case tokenize s of None \<Rightarrow> None | Some ts \<Rightarrow> parse_value [] ts)"

section \<open>The values the handler computes with\<close>

text \<open>
  What the handler can throw: a \<open>TypeError\<close> of the language itself, or the failure
  of a collaborator (the language model, the chat transport), which carries the text
  its \<open>toString()\<close> gives.
\<close>

datatype exn =
    TypeError jstring
  | Failure jstring

fun exn_toString :: "exn \<Rightarrow> jstring" where
  "exn_toString (TypeError m) = js ''TypeError: '' @ m"
| "exn_toString (Failure s) = s"

text \<open>
  A value read from a parsed record is a JSON value or \<open>undefined\<close> (\<open>None\<close>).
  \<open>get_prop\<close> reads one of the properties \<open>question\<close>, \<open>options\<close>,
  \<open>correctOptionIndex\<close>, \<open>explanation\<close>: of an object its member (the last one, when
  the text repeats a key), of \<open>null\<close> a \<open>TypeError\<close>, of anything else \<open>undefined\<close>,
  since no prototype has a property of these names.
\<close>

fun get_prop :: "json \<Rightarrow> jstring \<Rightarrow> exn + json option" where
  "get_prop JNull k = Inl (TypeError (js ''Cannot read properties of null''))"
| "get_prop (JObject ms) k = Inr (map_of (rev ms) k)"
| "get_prop (JBool b) k = Inr None"
| "get_prop (JNumber m e) k = Inr None"
| "get_prop (JString s) k = Inr None"
| "get_prop (JArray xs) k = Inr None"

text \<open>A number literal denotes zero as a double when its value is at most \<open>2\<^sup>-\<^sup>1\<^sup>0\<^sup>7\<^sup>5\<close> in
  size (round to nearest, ties to even).\<close>

definition number_is_zero :: "int \<Rightarrow> int \<Rightarrow> bool" where
  "number_is_zero m e = (m = 0 \<or> (e < 0 \<and> \<bar>m\<bar> * 2 ^ 1075 \<le> 10 ^ nat (- e)))"

text \<open>Truthiness, as \<open>!x\<close> tests it.\<close>

fun truthy :: "json option \<Rightarrow> bool" where
  "truthy None = False"
| "truthy (Some JNull) = False"
| "truthy (Some (JBool b)) = b"
| "truthy (Some (JNumber m e)) = (\<not> number_is_zero m e)"
| "truthy (Some (JString s)) = (s \<noteq> [])"
| "truthy (Some (JArray xs)) = True"
| "truthy (Some (JObject ms)) = True"

text \<open>\<open>option.slice(0, 100)\<close>: strings and arrays have a \<open>slice\<close>, nothing else that
  JSON can hold has one that can be called.\<close>

fun slice_option :: "json \<Rightarrow> exn + json" where
  "slice_option (JString s) = Inr (JString (slice0 100 s))"
| "slice_option (JArray xs) = Inr (JArray (slice0 100 xs))"
| "slice_option JNull = Inl (TypeError (js ''Cannot read properties of null''))"
| "slice_option (JBool b) = Inl (TypeError (js ''option.slice is not a function''))"
| "slice_option (JNumber m e) = Inl (TypeError (js ''option.slice is not a function''))"
| "slice_option (JObject ms) = Inl (TypeError (js ''option.slice is not a function''))"

text \<open>\<open>Array.prototype.map\<close> with that callback: the first throw ends it.\<close>

fun map_slice :: "json list \<Rightarrow> exn + json list" where
  "map_slice [] = Inr []"
| "map_slice (x # xs) =
     (case slice_option x of
        Inl e \<Rightarrow> Inl e
      | Inr y \<Rightarrow> (case map_slice xs of Inl e \<Rightarrow> Inl e | Inr ys \<Rightarrow> Inr (y # ys)))"

text \<open>\<open>q.options?.map(...)\<close>: \<open>undefined\<close> for \<open>undefined\<close> and \<open>null\<close>, the mapped
  array for an array, and a \<open>TypeError\<close> for every other value, which has no \<open>map\<close>.\<close>

fun map_options :: "json option \<Rightarrow> exn + json list option" where
  "map_options None = Inr None"
| "map_options (Some JNull) = Inr None"
| "map_options (Some (JArray xs)) =
     (case map_slice xs of Inl e \<Rightarrow> Inl e | Inr ys \<Rightarrow> Inr (Some ys))"
| "map_options (Some (JBool b)) = Inl (TypeError (js ''q.options?.map is not a function''))"
| "map_options (Some (JNumber m e)) = Inl (TypeError (js ''q.options?.map is not a function''))"
| "map_options (Some (JString s)) = Inl (TypeError (js ''q.options?.map is not a function''))"
| "map_options (Some (JObject ms)) = Inl (TypeError (js ''q.options?.map is not a function''))"

text \<open>\<open>questionText?.slice(0, 200) || ""\<close>.\<close>

fun slice_question :: "json option \<Rightarrow> exn + json" where
  "slice_question None = Inr (JString [])"
| "slice_question (Some JNull) = Inr (JString [])"
| "slice_question (Some (JString s)) = Inr (JString (slice0 200 s))"
| "slice_question (Some (JArray xs)) = Inr (JArray (slice0 200 xs))"
| "slice_question (Some (JBool b)) = Inl (TypeError (js ''questionText?.slice is not a function''))"
| "slice_question (Some (JNumber m e)) = Inl (TypeError (js ''questionText?.slice is not a function''))"
| "slice_question (Some (JObject ms)) = Inl (TypeError (js ''questionText?.slice is not a function''))"

text \<open>The iteration of \<open>for (const q of questions)\<close>: the elements of an array, the code
  points of a string (a surrogate pair is one of them); no other JSON value is iterable.\<close>

fun code_points :: "jstring \<Rightarrow> jstring list" where
  "code_points [] = []"
| "code_points [c] = [[c]]"
| "code_points (c # d # cs) =
     (if 0xD800 \<le> c \<and> c \<le> 0xDBFF \<and> 0xDC00 \<le> d \<and> d \<le> 0xDFFF
      then [c, d] # code_points cs
      else [c] # code_points (d # cs))"

fun iterate :: "json \<Rightarrow> exn + json list" where
  "iterate (JArray xs) = Inr xs"
| "iterate (JString s) = Inr (map JString (code_points s))"
| "iterate JNull = Inl (TypeError (js ''questions is not iterable''))"
| "iterate (JBool b) = Inl (TypeError (js ''questions is not iterable''))"
| "iterate (JNumber m e) = Inl (TypeError (js ''questions is not iterable''))"
| "iterate (JObject ms) = Inl (TypeError (js ''questions is not iterable''))"

text \<open>\<open>questions.length\<close> as the template literal prints it; it is read only after the
  loop, so of an array or a string.\<close>

fun length_text :: "json \<Rightarrow> jstring" where
  "length_text (JArray xs) = decimal (length xs)"
| "length_text (JString s) = decimal (length s)"
| "length_text JNull = js ''undefined''"
| "length_text (JBool b) = js ''undefined''"
| "length_text (JNumber m e) = js ''undefined''"
| "length_text (JObject ms) = js ''undefined''"

section \<open>The collaborators\<close>

datatype provider = ChatAnthropic | ChatOpenAI

record llm =
  provider :: provider
  temperature :: rat
  llm_modelName :: jstring

text \<open>The content of a model's answer: a string, or a list of blocks of which the
  handler reads the first.\<close>

datatype content_block = Text_Block jstring | Other_Block

datatype content = Content_Text jstring | Content_Blocks "content_block list"

record poll =
  poll_chat :: int
  poll_question :: json
  poll_options :: "json list"
  poll_type :: jstring
  correct_option_id :: json
  poll_explanation :: "json option"
  is_anonymous :: bool

text \<open>
  What one run of the handler does, in order. A send carries the outcome of its
  promise: \<open>None\<close> when it resolves, \<open>Some e\<close> when it rejects with \<open>e\<close>.
\<close>

datatype event =
    Invoke llm jstring
  | Send_Poll poll "exn option"
  | Send_Message int jstring "exn option"
  | Console_Error jstring "exn option"

text \<open>
  The world around the handler. \<open>supportedModels\<close> is the registry of module
  \<open>zod_stuff\<close>, whose text is not part of the sources at hand. \<open>toLowerCase\<close> is
  \<open>String.prototype.toLowerCase\<close>: it goes by the case table of Unicode, which the
  platform brings and the sources do not hold, so the handler takes it from the world
  as it is. \<open>llm_new\<close> is what the constructor of the client throws, \<open>llm_invoke\<close> what
  the model answers; \<open>sendPoll\<close> and \<open>sendMessage\<close> give the outcome of a send from what
  has happened before it.
\<close>

record env =
  supportedModels :: "jstring list"
  toLowerCase :: "jstring \<Rightarrow> jstring"
  llm_new :: "llm \<Rightarrow> exn option"
  llm_invoke :: "llm \<Rightarrow> jstring \<Rightarrow> exn + content"
  sendPoll :: "event list \<Rightarrow> poll \<Rightarrow> exn option"
  sendMessage :: "event list \<Rightarrow> int \<Rightarrow> jstring \<Rightarrow> exn option"

record message =
  chat_id :: int
  msg_text :: "jstring option"

section \<open>The message handler\<close>

subsection \<open>The texts it sends and logs\<close>

definition trigger :: jstring where
  "trigger = js ''/make_mcq''"

definition msg_no_content :: jstring where
  "msg_no_content = js ''Please provide the content to generate MCQ questions from.''"

definition msg_no_model :: jstring where
  "msg_no_model = js ''Please provide the model name to generate MCQ questions from.''"

definition msg_invalid_model :: jstring where
  "msg_invalid_model = js ''Please provide a valid model name to generate MCQ questions from.''"

definition msg_invalid_json :: jstring where
  "msg_invalid_json = js ''Sorry, the AI returned invalid JSON. Please try again.''"

definition msg_generating_failed :: jstring where
  "msg_generating_failed = js ''Oops, something went wrong while generating MCQs.''"

definition msg_poll_failed :: "exn \<Rightarrow> jstring" where
  "msg_poll_failed error =
     js ''Oops, something went wrong while sending the poll: '' @ exn_toString error"

definition msg_done :: "json \<Rightarrow> jstring" where
  "msg_done questions =
     js ''Done! I have created '' @ length_text questions @ js '' MCQ question polls.''"

definition msg_help :: "jstring list \<Rightarrow> jstring" where
  "msg_help models =
     js ''Hello! Use /make_mcq <model> <prompt> to generate MCQs, supported models are: ''
     @ [0x0A, 0x0A, 0x20] @ join models (js '', '')"

definition lines_text :: "jstring list \<Rightarrow> jstring" where
  "lines_text ls = concat (map (\<lambda>l. l @ [0x0A]) ls)"

definition prompt_head :: jstring where
  \<open>prompt_head =
     lines_text
      [js '''',
       js ''            You are a test question generator. '',
       js ''            Given the following content, instructions create multiple-choice questions in JSON format. '',
       js ''            Each question should have:'',
       js ''              - question: The question text'',
       js ''              - options: An array of possible answers'',
       js ''              - correctOptionIndex: The index (0-based) of the correct answer in the options array'',
       js ''              - explanation: Explanation of the correct answer'',
       js ''            Content:'']
     @ js ''            ''\<close>

definition prompt_tail :: jstring where
  \<open>prompt_tail =
     [0x0A] @
     lines_text
      [js ''      '',
       js ''            Return ONLY valid JSON; do not include additional text.'',
       js ''            Example of the JSON structure:'',
       js ''            ['',
       js ''              {'',
       js ''                "question": "Sample question?",'',
       js ''                "options": ["Option A", "Option B", "Option C", "Option D"],'',
       js ''                "correctOptionIndex": 2,'',
       js ''                "explanation": "Explanation of the correct answer"'',
       js ''              },'',
       js ''              ...'',
       js ''            ]'']
     @ js ''          ''\<close>

definition build_prompt :: "jstring \<Rightarrow> jstring" where
  "build_prompt content = prompt_head @ content @ prompt_tail"

subsection \<open>Sending\<close>

text \<open>\<open>bot.sendMessage\<close> is never awaited: the call is made, and whether its promise
  rejects changes nothing in the run.\<close>

definition send_message :: "env \<Rightarrow> int \<Rightarrow> jstring \<Rightarrow> event list \<Rightarrow> event list" where
  "send_message env chatId txt tr = tr @ [Send_Message chatId txt (sendMessage env tr chatId txt)]"

subsection \<open>Model selection\<close>

text \<open>The lookup of lines 240 to 242 and the choice of the client of lines 252 to 263.\<close>

definition resolve_model :: "env \<Rightarrow> jstring \<Rightarrow> jstring option" where
  "resolve_model env modelName =
     find (\<lambda>model. toLowerCase env model = toLowerCase env modelName) (supportedModels env)"

definition select_llm :: "jstring \<Rightarrow> llm" where
  "select_llm parsedModelName =
     (if includes_str parsedModelName (js ''claude'')
      then \<lparr>provider = ChatAnthropic, temperature = 7 / 10, llm_modelName = parsedModelName\<rparr>
      else \<lparr>provider = ChatOpenAI,
            temperature = (if parsedModelName = js ''o1-preview'' then 1 else 7 / 10),
            llm_modelName = parsedModelName\<rparr>)"

subsection \<open>From the model's answer to the questions\<close>

text \<open>Lines 306 to 318. The text of the answer: the content when it is a string, the text of the first
  block when that is a text block, the empty string when it is another block. Of no
  block at all, reading \<open>content[0].type\<close> throws.\<close>

fun response_text :: "content \<Rightarrow> exn + jstring" where
  "response_text (Content_Text s) = Inr s"
| "response_text (Content_Blocks []) = Inl (TypeError (js ''Cannot read properties of undefined''))"
| "response_text (Content_Blocks (Text_Block s # bs)) = Inr s"
| "response_text (Content_Blocks (Other_Block # bs)) = Inr []"

definition extract_json :: "jstring \<Rightarrow> json option" where
  "extract_json txt =
     (let firstBracketIndex = indexOf txt 0x5B;
          lastBracketIndex = lastIndexOf txt 0x5D;
          jsonText = substring txt firstBracketIndex (lastBracketIndex + 1)
      in JSON_parse jsonText)"

subsection \<open>One question\<close>

text \<open>Lines 343 to 361. The \<open>try\<close> around \<open>sendPoll\<close>: the question is cut inside it, so a question without
  \<open>slice\<close> is caught here too, before any poll is sent.\<close>

definition poll_catch :: "env \<Rightarrow> int \<Rightarrow> exn \<Rightarrow> event list \<Rightarrow> event list" where
  "poll_catch env chatId error tr =
     send_message env chatId (msg_poll_failed error)
       (tr @ [Console_Error (js ''Error sending poll:'') (Some error)])"

definition make_poll :: "int \<Rightarrow> json \<Rightarrow> json list \<Rightarrow> json \<Rightarrow> json option \<Rightarrow> poll" where
  "make_poll chatId q os ci ex =
     \<lparr>poll_chat = chatId, poll_question = q, poll_options = os, poll_type = js ''quiz'',
      correct_option_id = ci, poll_explanation = ex, is_anonymous = False\<rparr>"

definition try_send_poll ::
  "env \<Rightarrow> int \<Rightarrow> json option \<Rightarrow> json list \<Rightarrow> json \<Rightarrow> json option \<Rightarrow> event list \<Rightarrow> event list" where
  "try_send_poll env chatId questionText os ci ex tr =
     (case slice_question questionText of
        Inl error \<Rightarrow> poll_catch env chatId error tr
      | Inr q \<Rightarrow>
          (let p = make_poll chatId q os ci ex in
           case sendPoll env tr p of
             None \<Rightarrow> tr @ [Send_Poll p None]
           | Some error \<Rightarrow> poll_catch env chatId error (tr @ [Send_Poll p (Some error)])))"

text \<open>Lines 332 to 362. The body of the loop. \<open>Inl\<close> is a throw that leaves the loop; \<open>Inr\<close> the events
  after the iteration, unchanged when the record is skipped.\<close>

definition process_question :: "env \<Rightarrow> int \<Rightarrow> event list \<Rightarrow> json \<Rightarrow> exn + event list" where
  "process_question env chatId tr q =
     (case get_prop q (js ''question'') of
        Inl error \<Rightarrow> Inl error
      | Inr questionText \<Rightarrow>
     (case get_prop q (js ''options'') of
        Inl error \<Rightarrow> Inl error
      | Inr raw_options \<Rightarrow>
     (case map_options raw_options of
        Inl error \<Rightarrow> Inl error
      | Inr options \<Rightarrow>
     (case get_prop q (js ''correctOptionIndex'') of
        Inl error \<Rightarrow> Inl error
      | Inr correctOptionIndex \<Rightarrow>
     (case get_prop q (js ''explanation'') of
        Inl error \<Rightarrow> Inl error
      | Inr ex \<Rightarrow>
          if \<not> truthy questionText then Inr tr
          else
            (case options of
               None \<Rightarrow> Inr tr
             | Some os \<Rightarrow>
                 (case correctOptionIndex of
                    None \<Rightarrow> Inr tr
                  | Some JNull \<Rightarrow> Inr tr
                  | Some ci \<Rightarrow> Inr (try_send_poll env chatId questionText os ci ex tr))))))))"

fun process_questions :: "env \<Rightarrow> int \<Rightarrow> event list \<Rightarrow> json list \<Rightarrow> event list \<times> exn option" where
  "process_questions env chatId tr [] = (tr, None)"
| "process_questions env chatId tr (q # qs) =
     (case process_question env chatId tr q of
        Inl error \<Rightarrow> (tr, Some error)
      | Inr tr' \<Rightarrow> process_questions env chatId tr' qs)"

subsection \<open>The run after the model is chosen\<close>

definition generating_catch :: "env \<Rightarrow> int \<Rightarrow> exn \<Rightarrow> event list \<Rightarrow> event list" where
  "generating_catch env chatId err tr =
     send_message env chatId msg_generating_failed
       (tr @ [Console_Error (js ''Error creating MCQ via GPT:'') (Some err)])"

definition parse_catch :: "env \<Rightarrow> int \<Rightarrow> event list \<Rightarrow> event list" where
  "parse_catch env chatId tr =
     send_message env chatId msg_invalid_json
       (tr @ [Console_Error (js ''Failed to parse JSON from GPT:'') None])"

text \<open>Lines 290 to 376. What follows the answer of the model: extraction, the loop,
  the summary; \<open>generating_catch\<close> is the \<open>catch\<close> of line 370, \<open>parse_catch\<close> the one of
  line 319.\<close>

definition dispatch :: "env \<Rightarrow> int \<Rightarrow> json \<Rightarrow> event list \<Rightarrow> event list" where
  "dispatch env chatId questions tr =
     (case iterate questions of
        Inl error \<Rightarrow> generating_catch env chatId error tr
      | Inr qs \<Rightarrow>
          (case process_questions env chatId tr qs of
             (tr', Some error) \<Rightarrow> generating_catch env chatId error tr'
           | (tr', None) \<Rightarrow> send_message env chatId (msg_done questions) tr'))"

definition parse_response :: "content \<Rightarrow> json option" where
  "parse_response c = (case response_text c of Inl error \<Rightarrow> None | Inr txt \<Rightarrow> extract_json txt)"

definition on_response :: "env \<Rightarrow> int \<Rightarrow> content \<Rightarrow> event list \<Rightarrow> event list" where
  "on_response env chatId gptResponse tr =
     (case parse_response gptResponse of
        None \<Rightarrow> parse_catch env chatId tr
      | Some questions \<Rightarrow> dispatch env chatId questions tr)"

definition generate :: "env \<Rightarrow> int \<Rightarrow> llm \<Rightarrow> jstring \<Rightarrow> event list" where
  "generate env chatId l prompt =
     (case llm_invoke env l prompt of
        Inl error \<Rightarrow> generating_catch env chatId error [Invoke l prompt]
      | Inr gptResponse \<Rightarrow> on_response env chatId gptResponse [Invoke l prompt])"

subsection \<open>The command and the handler\<close>

text \<open>\<open>numQsStr.split(" ")[0]\<close>; the array of a split is never empty.\<close>

definition first_piece :: "jstring \<Rightarrow> jstring" where
  "first_piece s = (case split s 0x20 of [] \<Rightarrow> [] | w # ws \<Rightarrow> w)"

text \<open>Lines 219 to 376. The branch of a text that starts with the trigger. The second component is what
  it throws: with one piece only, \<open>numQsStr\<close> is \<open>undefined\<close> and its \<open>split\<close> a
  \<open>TypeError\<close>.\<close>

definition command :: "env \<Rightarrow> int \<Rightarrow> jstring \<Rightarrow> event list \<times> exn option" where
  "command env chatId txt =
     (case split txt 0x20 of
        u # numQsStr # contentArr \<Rightarrow>
          (let modelName = first_piece numQsStr;
               content = join contentArr (js '' '')
           in if content = [] then (send_message env chatId msg_no_content [], None)
              else if modelName = [] then (send_message env chatId msg_no_model [], None)
              else
                (case resolve_model env modelName of
                   None \<Rightarrow> (send_message env chatId msg_invalid_model [], None)
                 | Some parsedModelName \<Rightarrow>
                     if parsedModelName = [] then (send_message env chatId msg_invalid_model [], None)
                     else
                       (case llm_new env (select_llm parsedModelName) of
                          Some error \<Rightarrow> ([], Some error)
                        | None \<Rightarrow>
                            (generate env chatId (select_llm parsedModelName) (build_prompt content),
                             None))))
      | _ \<Rightarrow> ([], Some (TypeError (js ''Cannot read properties of undefined''))))"

text \<open>Lines 210 to 384. The body of the outer \<open>try\<close>.\<close>

definition handler_body :: "env \<Rightarrow> message \<Rightarrow> event list \<times> exn option" where
  "handler_body env msg =
     (case msg_text msg of
        None \<Rightarrow> ([], None)
      | Some txt \<Rightarrow>
          if txt = [] then ([], None)
          else if startsWith txt trigger then command env (chat_id msg) txt
          else (send_message env (chat_id msg) (msg_help (supportedModels env)) [], None))"

text \<open>Lines 208 to 388. The handler: the outer \<open>catch\<close> logs what the body throws. The second component
  is what the handler itself throws.\<close>

definition handler :: "env \<Rightarrow> message \<Rightarrow> event list \<times> exn option" where
  "handler env msg =
     (case handler_body env msg of
        (tr, Some error) \<Rightarrow> (tr @ [Console_Error (js ''Error processing message:'') (Some error)], None)
      | (tr, None) \<Rightarrow> (tr, None))"

section \<open>What is said about a run\<close>

subsection \<open>Polls, records and the events of the loop\<close>

text \<open>The polls of a run, in the order of their sends.\<close>

fun polls_of :: "event list \<Rightarrow> poll list" where
  "polls_of [] = []"
| "polls_of (ev # es) = (case ev of Send_Poll p out \<Rightarrow> p # polls_of es | _ \<Rightarrow> polls_of es)"

text \<open>A property of a record as the loop reads it; \<open>undefined\<close> where there is none.\<close>

definition field :: "json \<Rightarrow> jstring \<Rightarrow> json option" where
  "field q k = (case get_prop q k of Inl error \<Rightarrow> None | Inr v \<Rightarrow> v)"

text \<open>The poll that the loop sends for a record, if it sends one: the record passes
  the three checks and its question can be cut.\<close>

definition poll_for :: "int \<Rightarrow> json \<Rightarrow> poll option" where
  "poll_for chatId q =
     (if \<not> truthy (field q (js ''question'')) then None
      else
        (case map_options (field q (js ''options'')) of
           Inr (Some os) \<Rightarrow>
             (case field q (js ''correctOptionIndex'') of
                None \<Rightarrow> None
              | Some JNull \<Rightarrow> None
              | Some ci \<Rightarrow>
                  (case slice_question (field q (js ''question'')) of
                     Inl error \<Rightarrow> None
                   | Inr qt \<Rightarrow> Some (make_poll chatId qt os ci (field q (js ''explanation'')))))
         | _ \<Rightarrow> None))"

text \<open>What the loop may add to a run: polls, log entries, and messages that report a
  failed poll to the chat of the command.\<close>

fun loop_event :: "int \<Rightarrow> event \<Rightarrow> bool" where
  "loop_event c (Send_Poll p out) = True"
| "loop_event c (Console_Error l e) = True"
| "loop_event c (Send_Message c' t out) =
     (c' = c \<and> startsWith t (js ''Oops, something went wrong while sending the poll: ''))"
| "loop_event c (Invoke l p) = False"

text \<open>The events of failed polls: a poll that fails is followed at once by the log
  entry and by the message that names its error, and nothing else is there. The message
  is written out: the fixed words, then the text of the error, which for a failure of
  the transport is the text the transport gave, and for a \<open>TypeError\<close> its name and its
  own text.\<close>

inductive reported :: "int \<Rightarrow> event list \<Rightarrow> bool" for c :: int where
  reported_Nil: "reported c []"
| reported_sent: "reported c es \<Longrightarrow> reported c (Send_Poll p None # es)"
| reported_failed:
    "reported c es \<Longrightarrow>
     reported c (Send_Poll p (Some (Failure s)) #
       Console_Error (js ''Error sending poll:'') (Some (Failure s)) #
       Send_Message c (js ''Oops, something went wrong while sending the poll: '' @ s) out # es)"
| reported_type_error:
    "reported c es \<Longrightarrow>
     reported c (Send_Poll p (Some (TypeError m)) #
       Console_Error (js ''Error sending poll:'') (Some (TypeError m)) #
       Send_Message c
         (js ''Oops, something went wrong while sending the poll: '' @ js ''TypeError: '' @ m)
         out # es)"

code_pred reported .

fun is_summary :: "event \<Rightarrow> bool" where
  "is_summary (Send_Message c t out) = startsWith t (js ''Done!'')"
| "is_summary (Send_Poll p out) = False"
| "is_summary (Console_Error l e) = False"
| "is_summary (Invoke l p) = False"

subsection \<open>Shapes of records\<close>

fun sliceable :: "json \<Rightarrow> bool" where
  "sliceable (JString s) = True"
| "sliceable (JArray xs) = True"
| "sliceable JNull = False"
| "sliceable (JBool b) = False"
| "sliceable (JNumber m e) = False"
| "sliceable (JObject ms) = False"

fun options_shape :: "json option \<Rightarrow> bool" where
  "options_shape None = True"
| "options_shape (Some JNull) = True"
| "options_shape (Some (JArray xs)) = list_all sliceable xs"
| "options_shape (Some (JBool b)) = False"
| "options_shape (Some (JNumber m e)) = False"
| "options_shape (Some (JString s)) = False"
| "options_shape (Some (JObject ms)) = False"

text \<open>The records on which an iteration does not throw: not \<open>null\<close>, and the options
  absent, \<open>null\<close> or an array of strings (or of arrays, which have a \<open>slice\<close> too).\<close>

definition no_throw :: "json \<Rightarrow> bool" where
  "no_throw q = (q \<noteq> JNull \<and> options_shape (field q (js ''options'')))"

fun nullish :: "json option \<Rightarrow> bool" where
  "nullish None = True"
| "nullish (Some JNull) = True"
| "nullish (Some (JBool b)) = False"
| "nullish (Some (JNumber m e)) = False"
| "nullish (Some (JString s)) = False"
| "nullish (Some (JArray xs)) = False"
| "nullish (Some (JObject ms)) = False"

text \<open>The check of line 339, on the record as read.\<close>

definition guard_skips :: "json \<Rightarrow> bool" where
  "guard_skips q =
     (\<not> truthy (field q (js ''question'')) \<or> nullish (field q (js ''options'')) \<or>
      nullish (field q (js ''correctOptionIndex'')))"

fun fits :: "nat \<Rightarrow> json \<Rightarrow> bool" where
  "fits n (JString s) = (length s \<le> n)"
| "fits n (JArray xs) = (length xs \<le> n)"
| "fits n JNull = False"
| "fits n (JBool b) = False"
| "fits n (JNumber m e) = False"
| "fits n (JObject ms) = False"

fun is_string :: "json \<Rightarrow> bool" where
  "is_string (JString s) = True"
| "is_string JNull = False"
| "is_string (JBool b) = False"
| "is_string (JNumber m e) = False"
| "is_string (JArray xs) = False"
| "is_string (JObject ms) = False"

text \<open>A question with its attributes present and of their types: a question text that
  is not empty, options that are an array of strings, an index that is there. The range
  of the index, and the number of options, are not part of it.\<close>

definition valid_entity :: "json \<Rightarrow> bool" where
  "valid_entity q =
     (q \<noteq> JNull \<and>
      (case field q (js ''question'') of Some (JString s) \<Rightarrow> s \<noteq> [] | _ \<Rightarrow> False) \<and>
      (case field q (js ''options'') of Some (JArray os) \<Rightarrow> list_all is_string os | _ \<Rightarrow> False) \<and>
      \<not> nullish (field q (js ''correctOptionIndex'')))"

subsection \<open>The stack of the parser\<close>

text \<open>The frames of arrays, and the stacks whose lowest frame is one.\<close>

fun is_FArr :: "frame \<Rightarrow> bool" where
  "is_FArr (FArr acc) = True"
| "is_FArr (FObj acc k) = False"

fun is_array :: "json \<Rightarrow> bool" where
  "is_array (JArray xs) = True"
| "is_array JNull = False"
| "is_array (JBool b) = False"
| "is_array (JNumber m e) = False"
| "is_array (JString s) = False"
| "is_array (JObject ms) = False"

fun array_at_bottom :: "frame list \<Rightarrow> bool" where
  "array_at_bottom [] = False"
| "array_at_bottom [f] = is_FArr f"
| "array_at_bottom (f # g # st) = array_at_bottom (g # st)"

subsection \<open>Worlds and records to run the handler on\<close>

text \<open>The lower-casing of the example worlds: the table of \<open>String.prototype.toLowerCase\<close>
  for the code units that the runs below lower-case. The ASCII capitals and the Latin-1
  capitals (\<open>0xC0\<close> to \<open>0xDE\<close> but the multiplication sign \<open>0xD7\<close>) move up by \<open>0x20\<close>;
  the Kelvin sign \<open>0x212A\<close> becomes the letter k. Nothing is said with it about any
  other code unit from \<open>0x100\<close> on, and no run below has one.\<close>

definition example_lower :: "jstring \<Rightarrow> jstring" where
  "example_lower s =
     map (\<lambda>c. if (0x41 \<le> c \<and> c \<le> 0x5A) \<or> (0xC0 \<le> c \<and> c \<le> 0xDE \<and> c \<noteq> 0xD7)
               then c + 0x20
               else if c = 0x212A then 0x6B
               else c) s"

definition example_models :: "jstring list" where
  "example_models =
     [js ''gpt-4o'', js ''o1-preview'', js ''claude-3-5-sonnet-20240620'',
      js ''claude-3-haiku-20240307'']"

text \<open>A world where the model answers \<open>reply\<close> and every send goes through.\<close>

definition world :: "jstring \<Rightarrow> env" where
  "world reply =
     \<lparr>supportedModels = example_models,
      toLowerCase = example_lower,
      llm_new = (\<lambda>l. None),
      llm_invoke = (\<lambda>l p. Inr (Content_Text reply)),
      sendPoll = (\<lambda>tr p. None),
      sendMessage = (\<lambda>tr c t. None)\<rparr>"

text \<open>A world where the chat does not take messages: every \<open>sendMessage\<close> rejects.\<close>

definition deaf_world :: env where
  "deaf_world =
     \<lparr>supportedModels = example_models,
      toLowerCase = example_lower,
      llm_new = (\<lambda>l. None),
      llm_invoke = (\<lambda>l p. Inr (Content_Text (js ''[]''))),
      sendPoll = (\<lambda>tr p. None),
      sendMessage = (\<lambda>tr c t. Some (Failure (js ''Error: ETELEGRAM: 403 Forbidden'')))\<rparr>"

text \<open>A transport that refuses a quiz with fewer than two options, and one whose correct
  option is not one of its options, each with words of its own.\<close>

definition in_range :: "poll \<Rightarrow> bool" where
  "in_range p =
     (case correct_option_id p of
        JNumber m e \<Rightarrow> e = 0 \<and> 0 \<le> m \<and> m < int (length (poll_options p))
      | _ \<Rightarrow> False)"

definition strict_world :: env where
  "strict_world =
     \<lparr>supportedModels = example_models,
      toLowerCase = example_lower,
      llm_new = (\<lambda>l. None),
      llm_invoke = (\<lambda>l p. Inr (Content_Text (js ''[]''))),
      sendPoll = (\<lambda>tr p.
        if length (poll_options p) < 2
        then Some (Failure (js ''Error: ETELEGRAM: 400 Bad Request: poll must have at least 2 options''))
        else if in_range p then None
        else Some (Failure (js ''Error: ETELEGRAM: 400 Bad Request: wrong correct option''))),
      sendMessage = (\<lambda>tr c t. None)\<rparr>"

text \<open>Records to run the loop on.\<close>

definition record_ok :: json where
  "record_ok =
     JObject [(js ''question'', JString (js ''Q?'')),
              (js ''options'', JArray [JString (js ''A''), JString (js ''B'')]),
              (js ''correctOptionIndex'', JNumber 0 0),
              (js ''explanation'', JString (js ''e''))]"

definition record_out_of_range :: json where
  "record_out_of_range =
     JObject [(js ''question'', JString (js ''Which?'')),
              (js ''options'', JArray [JString (js ''A''), JString (js ''B'')]),
              (js ''correctOptionIndex'', JNumber 7 0)]"

definition record_one_option :: json where
  "record_one_option =
     JObject [(js ''question'', JString (js ''Only?'')),
              (js ''options'', JArray [JString (js ''A'')]),
              (js ''correctOptionIndex'', JNumber 0 0)]"

definition record_bad_options :: json where
  "record_bad_options =
     JObject [(js ''question'', JString (js ''Q'')),
              (js ''options'', JString (js ''AB'')),
              (js ''correctOptionIndex'', JNumber 0 0)]"

definition poll_ok :: poll where
  "poll_ok = make_poll 7 (JString (js ''Q?'')) [JString (js ''A''), JString (js ''B'')]
     (JNumber 0 0) (Some (JString (js ''e'')))"

section \<open>Lemmas\<close>

lemma split_not_Nil: "split s sep \<noteq> []"
  by (induction s) (auto split: list.splits)

lemma split_no_sep: "w \<in> set (split s sep) \<Longrightarrow> sep \<notin> set w"
proof (induction s arbitrary: w)
  case Nil
  then show ?case by simp
next
  case (Cons c cs)
  show ?case
  proof (cases "c = sep")
    case True
    with Cons show ?thesis by auto
  next
    case False
    obtain v vs where vs: "split cs sep = v # vs"
      using split_not_Nil [of cs sep] by (cases "split cs sep") auto
    with False Cons.prems have "w = c # v \<or> w \<in> set vs" by auto
    with Cons.IH vs False show ?thesis by auto
  qed
qed

lemma split_without_sep: "sep \<notin> set w \<Longrightarrow> split w sep = [w]"
  by (induction w) auto

lemma first_piece_of_piece:
  "tok \<in> set (split txt 0x20) \<Longrightarrow> first_piece tok = tok"
  using split_no_sep [of tok "txt" "0x20"] by (simp add: first_piece_def split_without_sep)

lemma resolve_model_Some:
  "resolve_model env tok = Some m \<Longrightarrow>
   m \<in> set (supportedModels env) \<and> toLowerCase env m = toLowerCase env tok"
  unfolding resolve_model_def by (auto simp: find_Some_iff)

lemma resolve_model_None:
  "resolve_model env tok = None \<longleftrightarrow>
   (\<forall>m \<in> set (supportedModels env). toLowerCase env m \<noteq> toLowerCase env tok)"
  unfolding resolve_model_def by (auto simp: find_None_iff)

lemma command_resolved:
  assumes sp: "split txt 0x20 = u # tok # contentArr"
    and content: "join contentArr (js '' '') \<noteq> []"
    and tok: "tok \<noteq> []"
    and res: "resolve_model env tok = Some n"
    and n: "n \<noteq> []"
    and new: "llm_new env (select_llm n) = None"
  shows "command env c txt =
    (generate env c (select_llm n) (build_prompt (join contentArr (js '' ''))), None)"
proof -
  have "tok \<in> set (split txt 0x20)" using sp by simp
  then have fp: "first_piece tok = tok" by (rule first_piece_of_piece)
  with sp content tok res n new show ?thesis
    by (simp add: command_def Let_def)
qed

lemma trigger_not_Nil: "startsWith txt trigger \<Longrightarrow> txt \<noteq> []"
  by (auto simp: startsWith_def trigger_def js_def)

lemma handler_command:
  assumes "msg_text msg = Some txt" "startsWith txt trigger"
  shows "handler_body env msg = command env (chat_id msg) txt"
  using assms trigger_not_Nil [of "txt"] by (simp add: handler_body_def)

lemma try_send_poll_extends:
  "\<exists>ext. try_send_poll env c qt os ci ex tr = tr @ ext"
  by (auto simp: try_send_poll_def poll_catch_def send_message_def Let_def
      split: sum.splits option.splits)

lemma process_question_extends:
  "process_question env c tr q = Inr tr' \<Longrightarrow> \<exists>ext. tr' = tr @ ext"
  using try_send_poll_extends [of env c _ _ _ _ tr]
  by (auto simp: process_question_def split: sum.splits option.splits if_splits json.splits)

lemma process_questions_extends:
  "process_questions env c tr qs = (tr', r) \<Longrightarrow> \<exists>ext. tr' = tr @ ext"
proof (induction qs arbitrary: tr)
  case Nil
  then show ?case by simp
next
  case (Cons q qs)
  show ?case
  proof (cases "process_question env c tr q")
    case (Inl e)
    with Cons.prems show ?thesis by simp
  next
    case (Inr tr1)
    then obtain e1 where "tr1 = tr @ e1" using process_question_extends by blast
    moreover from Inr Cons.prems have "process_questions env c tr1 qs = (tr', r)" by simp
    then obtain e2 where "tr' = tr1 @ e2" using Cons.IH by blast
    ultimately show ?thesis by simp
  qed
qed

lemma on_response_extends:
  "\<exists>ext. on_response env c r tr = tr @ ext"
proof (cases "parse_response r")
  case None
  then show ?thesis
    by (simp add: on_response_def parse_catch_def send_message_def)
next
  case (Some questions)
  show ?thesis
  proof (cases "iterate questions")
    case (Inl e)
    with Some show ?thesis
      by (simp add: on_response_def dispatch_def generating_catch_def send_message_def)
  next
    case (Inr qs)
    obtain tr' res where pq: "process_questions env c tr qs = (tr', res)"
      by (cases "process_questions env c tr qs") auto
    then obtain ext where "tr' = tr @ ext" using process_questions_extends by blast
    with Some Inr pq show ?thesis
      by (cases res) (simp_all add: on_response_def dispatch_def generating_catch_def send_message_def)
  qed
qed

lemma generate_starts:
  "\<exists>tr. generate env c l p = Invoke l p # tr"
proof (cases "llm_invoke env l p")
  case (Inl e)
  then show ?thesis by (simp add: generate_def generating_catch_def send_message_def)
next
  case (Inr r)
  obtain ext where "on_response env c r [Invoke l p] = [Invoke l p] @ ext"
    using on_response_extends by blast
  with Inr show ?thesis by (simp add: generate_def)
qed

lemma first_piece_takeWhile: "first_piece s = takeWhile (\<lambda>c. c \<noteq> 0x20) s"
proof -
  have "(case split s sep of [] \<Rightarrow> [] | w # ws \<Rightarrow> w) = takeWhile (\<lambda>c. c \<noteq> sep) s" for sep
    by (induction s) (auto split: list.splits)
  then show ?thesis by (simp add: first_piece_def)
qed

lemma startsWith_takeWhile:
  assumes "\<forall>c \<in> set p. P c"
  shows "startsWith (takeWhile P s) p \<longleftrightarrow> startsWith s p"
proof
  assume "startsWith s p"
  then have "take (length p) s = p" by (simp add: startsWith_def)
  then have "s = p @ drop (length p) s" using append_take_drop_id [of "length p" s] by simp
  then have "takeWhile P s = takeWhile P (p @ drop (length p) s)" by simp
  also have "\<dots> = p @ takeWhile P (drop (length p) s)"
    using assms by (simp add: takeWhile_append2)
  finally show "startsWith (takeWhile P s) p" by (simp add: startsWith_def)
next
  assume a: "startsWith (takeWhile P s) p"
  then have eq: "take (length p) (takeWhile P s) = p" by (simp add: startsWith_def)
  have le: "length p \<le> length (takeWhile P s)"
  proof -
    have "length p = length (take (length p) (takeWhile P s))" using eq by simp
    then show ?thesis by simp
  qed
  have "take (length p) (takeWhile P s @ dropWhile P s) = take (length p) (takeWhile P s)"
    using le by (simp del: takeWhile_dropWhile_id)
  then have "take (length p) s = take (length p) (takeWhile P s)" by simp
  then show "startsWith s p" using eq by (simp add: startsWith_def)
qed

lemma trigger_no_space: "\<forall>c \<in> set trigger. c \<noteq> 0x20"
  by (simp add: trigger_def js_def U_def)

lemma sublist_prepend: "sublist m ys \<Longrightarrow> sublist m (ps @ ys)"
proof -
  assume "sublist m ys"
  then obtain p q where "ys = p @ m @ q" by (auto simp: sublist_def)
  then have "ps @ ys = (ps @ p) @ m @ q" by simp
  then show ?thesis unfolding sublist_def by blast
qed

lemma sublist_join: "m \<in> set ms \<Longrightarrow> sublist m (join ms sep)"
proof (induction ms sep rule: join.induct)
  case (1 sep)
  then show ?case by simp
next
  case (2 x sep)
  then show ?case by simp
next
  case (3 x y ys sep)
  show ?case
  proof (cases "m = x")
    case True
    then show ?thesis by simp
  next
    case False
    with 3 have "sublist m (join (y # ys) sep)" by simp
    then have "sublist m ((x @ sep) @ join (y # ys) sep)" by (rule sublist_prepend)
    then show ?thesis by simp
  qed
qed

lemma sublist_help: "m \<in> set ms \<Longrightarrow> sublist m (msg_help ms)"
proof -
  assume "m \<in> set ms"
  then have "sublist m (join ms (js '', ''))" by (rule sublist_join)
  then have "sublist m
      ((js ''Hello! Use /make_mcq <model> <prompt> to generate MCQs, supported models are: ''
        @ [0x0A, 0x0A, 0x20]) @ join ms (js '', ''))"
    by (rule sublist_prepend)
  then show ?thesis by (simp add: msg_help_def)
qed

lemma polls_of_append: "polls_of (a @ b) = polls_of a @ polls_of b"
  by (induction a) (auto split: event.splits)

lemma get_prop_field: "q \<noteq> JNull \<Longrightarrow> get_prop q k = Inr (field q k)"
  by (cases q) (auto simp: field_def)

lemma reported_append: "reported c a \<Longrightarrow> reported c b \<Longrightarrow> reported c (a @ b)"
  by (induction rule: reported.induct) (auto intro: reported.intros)

lemma process_question_not_null:
  assumes "q \<noteq> JNull"
  shows "process_question env c tr q =
    (case map_options (field q (js ''options'')) of
       Inl error \<Rightarrow> Inl error
     | Inr opts \<Rightarrow>
         if \<not> truthy (field q (js ''question'')) then Inr tr
         else
           (case opts of
              None \<Rightarrow> Inr tr
            | Some os \<Rightarrow>
                (case field q (js ''correctOptionIndex'') of
                   None \<Rightarrow> Inr tr
                 | Some JNull \<Rightarrow> Inr tr
                 | Some ci \<Rightarrow>
                     Inr (try_send_poll env c (field q (js ''question'')) os ci
                            (field q (js ''explanation'')) tr))))"
  by (simp add: process_question_def get_prop_field [OF assms] split: sum.splits)

lemma process_question_null: "process_question env c tr JNull = Inl (TypeError (js ''Cannot read properties of null''))"
  by (simp add: process_question_def)

lemma poll_failed_prefix:
  "startsWith (msg_poll_failed e) (js ''Oops, something went wrong while sending the poll: '')"
  by (simp add: msg_poll_failed_def startsWith_def)

lemma reported_failure:
  "reported c [Send_Poll p (Some e), Console_Error (js ''Error sending poll:'') (Some e),
     Send_Message c (msg_poll_failed e) out]"
  by (cases e) (auto simp: msg_poll_failed_def intro: reported.intros)

text \<open>What one send adds to the run.\<close>

lemma try_send_poll_events:
  "\<exists>ext. try_send_poll env c qt os ci ex tr = tr @ ext \<and>
     list_all (loop_event c) ext \<and>
     polls_of ext =
       (case slice_question qt of Inl error \<Rightarrow> [] | Inr q \<Rightarrow> [make_poll c q os ci ex]) \<and>
     ((\<exists>q. slice_question qt = Inr q) \<longrightarrow> reported c ext)"
proof (cases "slice_question qt")
  case (Inl e)
  then show ?thesis
    by (auto simp: try_send_poll_def poll_catch_def send_message_def poll_failed_prefix)
next
  case (Inr q)
  show ?thesis
  proof (cases "sendPoll env tr (make_poll c q os ci ex)")
    case None
    with Inr show ?thesis
      by (auto simp: try_send_poll_def Let_def intro: reported.intros)
  next
    case (Some e)
    with Inr show ?thesis
      by (auto simp: try_send_poll_def Let_def poll_catch_def send_message_def
          poll_failed_prefix reported_failure)
  qed
qed

text \<open>What one iteration adds, when it does not throw.\<close>

lemma process_question_events:
  assumes "process_question env c tr q = Inr tr'"
  shows "\<exists>ext. tr' = tr @ ext \<and> list_all (loop_event c) ext \<and>
     polls_of ext = (case poll_for c q of None \<Rightarrow> [] | Some p \<Rightarrow> [p])"
proof -
  from assms have nn: "q \<noteq> JNull" by (auto simp: process_question_null)
  note pq = process_question_not_null [OF nn, of env c tr]
  from assms pq obtain opts where mo: "map_options (field q (js ''options'')) = Inr opts"
    by (cases "map_options (field q (js ''options''))") auto
  let ?sends = "truthy (field q (js ''question'')) \<and> opts \<noteq> None \<and>
      field q (js ''correctOptionIndex'') \<noteq> None \<and>
      field q (js ''correctOptionIndex'') \<noteq> Some JNull"
  show ?thesis
  proof (cases ?sends)
    case False
    then have "process_question env c tr q = Inr tr"
      by (auto simp: pq mo split: option.splits json.splits)
    moreover from False have "poll_for c q = None"
      by (auto simp: poll_for_def mo split: option.splits json.splits)
    ultimately show ?thesis using assms by simp
  next
    case True
    then obtain os ci where os: "opts = Some os"
      and ci: "field q (js ''correctOptionIndex'') = Some ci" "ci \<noteq> JNull"
      by auto
    from True os ci have run: "process_question env c tr q =
        Inr (try_send_poll env c (field q (js ''question'')) os ci (field q (js ''explanation'')) tr)"
      by (cases ci) (auto simp: pq mo)
    from True os ci have pf: "poll_for c q =
        (case slice_question (field q (js ''question'')) of
           Inl error \<Rightarrow> None
         | Inr qt \<Rightarrow> Some (make_poll c qt os ci (field q (js ''explanation''))))"
      by (cases ci) (auto simp: poll_for_def mo)
    obtain ext where ext:
      "try_send_poll env c (field q (js ''question'')) os ci (field q (js ''explanation'')) tr = tr @ ext"
      "list_all (loop_event c) ext"
      "polls_of ext =
         (case slice_question (field q (js ''question'')) of
            Inl error \<Rightarrow> []
          | Inr qt \<Rightarrow> [make_poll c qt os ci (field q (js ''explanation''))])"
      using try_send_poll_events by blast
    from run assms ext(1) have "tr' = tr @ ext" by simp
    moreover have "polls_of ext = (case poll_for c q of None \<Rightarrow> [] | Some p \<Rightarrow> [p])"
      by (simp add: ext(3) pf split: sum.splits)
    ultimately show ?thesis using ext(2) by blast
  qed
qed

text \<open>The whole loop, when no iteration throws: the polls it sends are those of the
  records that yield one, in the order of the records.\<close>

lemma process_questions_events:
  assumes "process_questions env c tr qs = (tr', r)"
  shows "\<exists>ext. tr' = tr @ ext \<and> list_all (loop_event c) ext \<and>
     (r = None \<longrightarrow> polls_of ext = List.map_filter (poll_for c) qs)"
  using assms
proof (induction qs arbitrary: tr)
  case Nil
  then show ?case by (simp add: List.map_filter_simps)
next
  case (Cons q qs)
  show ?case
  proof (cases "process_question env c tr q")
    case (Inl e)
    with Cons.prems show ?thesis by auto
  next
    case (Inr tr1)
    then obtain e1 where e1: "tr1 = tr @ e1" "list_all (loop_event c) e1"
      "polls_of e1 = (case poll_for c q of None \<Rightarrow> [] | Some p \<Rightarrow> [p])"
      using process_question_events by blast
    from Inr Cons.prems have "process_questions env c tr1 qs = (tr', r)" by simp
    then obtain e2 where e2: "tr' = tr1 @ e2" "list_all (loop_event c) e2"
      "r = None \<longrightarrow> polls_of e2 = List.map_filter (poll_for c) qs"
      using Cons.IH by blast
    have "tr' = tr @ (e1 @ e2)" using e1(1) e2(1) by simp
    moreover have "list_all (loop_event c) (e1 @ e2)" using e1(2) e2(2) by simp
    moreover have "r = None \<longrightarrow> polls_of (e1 @ e2) = List.map_filter (poll_for c) (q # qs)"
      using e1(3) e2(3) by (simp add: polls_of_append List.map_filter_simps split: option.splits)
    ultimately show ?thesis by blast
  qed
qed

lemma slice_option_fits: "slice_option x = Inr y \<Longrightarrow> fits 100 y"
  by (cases x) (auto simp: slice0_def)

lemma map_slice_fits: "map_slice xs = Inr ys \<Longrightarrow> list_all (fits 100) ys"
proof (induction xs arbitrary: ys)
  case Nil
  then show ?case by simp
next
  case (Cons x xs)
  then show ?case
    by (auto split: sum.splits dest: slice_option_fits)
qed

lemma map_options_fits: "map_options v = Inr (Some ys) \<Longrightarrow> list_all (fits 100) ys"
  by (cases v rule: map_options.cases) (auto split: sum.splits dest: map_slice_fits)

lemma slice_question_fits: "slice_question v = Inr q \<Longrightarrow> fits 200 q"
  by (cases v rule: slice_question.cases) (auto simp: slice0_def)

lemma poll_for_fits:
  assumes "poll_for c q = Some p"
  shows "fits 200 (poll_question p) \<and> list_all (fits 100) (poll_options p)"
proof -
  from assms obtain os ci qt where
    "map_options (field q (js ''options'')) = Inr (Some os)"
    "slice_question (field q (js ''question'')) = Inr qt"
    "p = make_poll c qt os ci (field q (js ''explanation''))"
    by (auto simp: poll_for_def split: if_splits sum.splits option.splits json.splits)
  then show ?thesis
    using map_options_fits slice_question_fits by (auto simp: make_poll_def)
qed

lemma map_slice_sliceable: "list_all sliceable xs \<Longrightarrow> \<exists>ys. map_slice xs = Inr ys"
proof (induction xs)
  case Nil
  then show ?case by simp
next
  case (Cons x xs)
  then obtain ys where "map_slice xs = Inr ys" by auto
  moreover from Cons.prems obtain y where "slice_option x = Inr y" by (cases x) auto
  ultimately show ?case by simp
qed

lemma map_options_shape: "options_shape v \<Longrightarrow> \<exists>opts. map_options v = Inr opts"
proof (cases v rule: map_options.cases)
  case (3 xs)
  assume "options_shape v"
  with 3 obtain ys where "map_slice xs = Inr ys"
    using map_slice_sliceable by auto
  with 3 show ?thesis by simp
qed auto

lemma map_options_nullish: "nullish v \<Longrightarrow> map_options v = Inr None"
  by (cases v rule: nullish.cases) auto

lemma map_options_not_nullish: "map_options v = Inr None \<Longrightarrow> nullish v"
  by (cases v rule: nullish.cases) (auto split: sum.splits)

lemma no_throw_run:
  assumes "no_throw q"
  shows "\<exists>tr'. process_question env c tr q = Inr tr'"
proof -
  from assms have nn: "q \<noteq> JNull" and "options_shape (field q (js ''options''))"
    by (simp_all add: no_throw_def)
  then obtain opts where "map_options (field q (js ''options'')) = Inr opts"
    using map_options_shape by blast
  then show ?thesis
    by (auto simp: process_question_not_null [OF nn] split: option.splits json.splits)
qed

lemma try_send_poll_not_silent: "try_send_poll env c qt os ci ex tr \<noteq> tr"
  by (auto simp: try_send_poll_def poll_catch_def send_message_def Let_def
      split: sum.splits option.splits)

lemma guard_skips_silent:
  assumes "no_throw q"
  shows "guard_skips q \<longleftrightarrow> process_question env c tr q = Inr tr"
proof -
  from assms have nn: "q \<noteq> JNull" and "options_shape (field q (js ''options''))"
    by (simp_all add: no_throw_def)
  then obtain opts where mo: "map_options (field q (js ''options'')) = Inr opts"
    using map_options_shape by blast
  have n: "nullish (field q (js ''options'')) \<longleftrightarrow> opts = None"
    using mo map_options_nullish map_options_not_nullish by auto
  show ?thesis
  proof (cases "field q (js ''correctOptionIndex'')")
    case None
    then show ?thesis
      by (auto simp: guard_skips_def process_question_not_null [OF nn] mo split: option.splits)
  next
    case (Some ci)
    then show ?thesis using n try_send_poll_not_silent
      by (cases ci) (auto simp: guard_skips_def process_question_not_null [OF nn] mo
          split: option.splits)
  qed
qed

lemma guard_skips_no_poll: "guard_skips q \<Longrightarrow> poll_for c q = None"
  by (auto simp: guard_skips_def poll_for_def map_options_nullish
      split: sum.splits option.splits json.splits elim: nullish.elims)

lemma no_throw_loop:
  "list_all no_throw qs \<Longrightarrow> \<exists>tr'. process_questions env c tr qs = (tr', None)"
proof (induction qs arbitrary: tr)
  case Nil
  then show ?case by simp
next
  case (Cons q qs)
  from Cons.prems have "no_throw q" by simp
  then obtain tr1 where "process_question env c tr q = Inr tr1"
    using no_throw_run by blast
  moreover from Cons obtain tr' where "process_questions env c tr1 qs = (tr', None)"
    by auto
  ultimately show ?case by simp
qed

lemma is_string_sliceable: "is_string x \<Longrightarrow> sliceable x"
  by (cases x) auto

lemma valid_entity_run:
  assumes "valid_entity q"
  shows "\<exists>ext p. process_question env c tr q = Inr (tr @ ext) \<and> polls_of ext = [p] \<and>
     poll_for c q = Some p \<and> reported c ext \<and>
     field q (js ''correctOptionIndex'') = Some (correct_option_id p)"
proof -
  from assms have nn: "q \<noteq> JNull" by (simp add: valid_entity_def)
  from assms obtain s where s: "field q (js ''question'') = Some (JString s)" "s \<noteq> []"
    by (auto simp: valid_entity_def split: option.splits json.splits)
  from assms obtain xs where xs: "field q (js ''options'') = Some (JArray xs)" "list_all is_string xs"
    by (auto simp: valid_entity_def split: option.splits json.splits)
  from assms obtain ci where ci: "field q (js ''correctOptionIndex'') = Some ci" "ci \<noteq> JNull"
    by (auto simp: valid_entity_def elim: nullish.elims)
  from xs(2) have "list_all sliceable xs"
    by (simp add: list_all_iff is_string_sliceable)
  then obtain os where os: "map_slice xs = Inr os" using map_slice_sliceable by blast
  let ?ex = "field q (js ''explanation'')"
  let ?p = "make_poll c (JString (slice0 200 s)) os ci ?ex"
  have run: "process_question env c tr q = Inr (try_send_poll env c (Some (JString s)) os ci ?ex tr)"
    using s xs ci os by (cases ci) (auto simp: process_question_not_null [OF nn])
  have pf: "poll_for c q = Some ?p"
    using s xs ci os by (cases ci) (auto simp: poll_for_def)
  obtain ext where ext: "try_send_poll env c (Some (JString s)) os ci ?ex tr = tr @ ext"
    "polls_of ext = (case slice_question (Some (JString s)) of Inl error \<Rightarrow> []
       | Inr qt \<Rightarrow> [make_poll c qt os ci ?ex])"
    "(\<exists>qt. slice_question (Some (JString s)) = Inr qt) \<longrightarrow> reported c ext"
    using try_send_poll_events by blast
  from ext(2) have "polls_of ext = [?p]" by simp
  moreover from ext(3) have "reported c ext" by simp
  moreover have "correct_option_id ?p = ci" by (simp add: make_poll_def)
  ultimately show ?thesis using run ext(1) pf ci(1) by auto
qed

lemma common_prefix:
  assumes "startsWith t p" "startsWith t d" "length d \<le> length p"
  shows "take (length d) p = d"
proof -
  from assms(1) have "take (length d) p = take (length d) (take (length p) t)"
    by (simp add: startsWith_def)
  also have "\<dots> = take (length d) t" using assms(3) by (simp add: min_absorb1)
  also have "\<dots> = d" using assms(2) by (simp add: startsWith_def)
  finally show ?thesis .
qed

lemma loop_event_not_summary: "loop_event c ev \<Longrightarrow> \<not> is_summary ev"
proof (cases ev)
  case (Send_Message c' t out)
  assume "loop_event c ev"
  with Send_Message
  have p: "startsWith t (js ''Oops, something went wrong while sending the poll: '')" by simp
  have "\<not> startsWith t (js ''Done!'')"
  proof
    assume "startsWith t (js ''Done!'')"
    with p have "take (length (js ''Done!''))
        (js ''Oops, something went wrong while sending the poll: '') = js ''Done!''"
      by (rule common_prefix) (simp add: js_def)
    then show False by (simp add: js_def U_def)
  qed
  with Send_Message show ?thesis by simp
qed auto

lemma msg_done_array:
  "msg_done (JArray qs) =
     js ''Done! I have created '' @ decimal (length qs) @ js '' MCQ question polls.''"
  by (simp add: msg_done_def)

text \<open>One step of the tokenizer, by the kind of token it reads.\<close>

lemma tokenize_Cons_cases:
  assumes "tokenize (c # cs) = Some ts"
  obtains
    (space) "is_ws c" "tokenize cs = Some ts"
  | (punct) t ts' where "\<not> is_ws c" "ts = t # ts'" "tokenize cs = Some ts'"
      "(c = 0x5B \<and> t = LBracket) \<or> (c = 0x5D \<and> t = RBracket) \<or>
       (c \<noteq> 0x5B \<and> c \<noteq> 0x5D \<and> t \<noteq> LBracket \<and> t \<noteq> RBracket)"
  | (str) s r ts' where "c = 0x22" "lex_string cs = Some (s, r)" "ts = TString s # ts'"
      "tokenize r = Some ts'"
  | (num) m e r ts' where "c \<noteq> 0x5B" "lex_number (c # cs) = Some (m, e, r)"
      "ts = TNumber m e # ts'" "tokenize r = Some ts'"
  | (lit) t n w ts' where "c \<noteq> 0x5B" "c # cs = w @ drop n cs" "w \<noteq> []" "last w \<noteq> 0x5D"
      "t \<noteq> LBracket" "t \<noteq> RBracket" "ts = t # ts'" "tokenize (drop n cs) = Some ts'"
proof -
  have lit_split: "c # cs = lit @ drop (length lit - 1) cs" if "startsWith (c # cs) lit" "lit \<noteq> []"
    for lit
  proof -
    from that have "take (length lit) (c # cs) = lit" by (simp add: startsWith_def)
    moreover have "drop (length lit) (c # cs) = drop (length lit - 1) cs"
      using that(2) by (cases lit) auto
    ultimately show ?thesis
      using append_take_drop_id [of "length lit" "c # cs"] by simp
  qed
  show ?thesis
  proof (cases "is_ws c")
    case True
    with assms space show ?thesis by simp
  next
    case nws: False
    show ?thesis
    proof (cases "c = 0x7B \<or> c = 0x7D \<or> c = 0x5B \<or> c = 0x5D \<or> c = 0x3A \<or> c = 0x2C")
      case True
      with assms nws obtain t ts' where "ts = t # ts'" "tokenize cs = Some ts'"
        "(c = 0x5B \<and> t = LBracket) \<or> (c = 0x5D \<and> t = RBracket) \<or>
         (c \<noteq> 0x5B \<and> c \<noteq> 0x5D \<and> t \<noteq> LBracket \<and> t \<noteq> RBracket)"
        by (auto split: if_splits)
      with nws punct show ?thesis by blast
    next
      case np: False
      show ?thesis
      proof (cases "c = 0x22")
        case True
        with assms nws np obtain s r ts' where "lex_string cs = Some (s, r)"
          "ts = TString s # ts'" "tokenize r = Some ts'"
          by (auto split: option.splits)
        with True str show ?thesis by blast
      next
        case nq: False
        show ?thesis
        proof (cases "c = 0x2D \<or> is_digit c")
          case True
          with assms nws np nq obtain m e r ts' where "lex_number (c # cs) = Some (m, e, r)"
            "ts = TNumber m e # ts'" "tokenize r = Some ts'"
            by (auto split: option.splits)
          with np num show ?thesis by blast
        next
          case nn: False
          from assms nws np nq nn consider
            (t) ts' where "startsWith (c # cs) (js ''true'')" "ts = TTrue # ts'"
              "tokenize (drop 3 cs) = Some ts'"
          | (f) ts' where "startsWith (c # cs) (js ''false'')" "ts = TFalse # ts'"
              "tokenize (drop 4 cs) = Some ts'"
          | (n) ts' where "startsWith (c # cs) (js ''null'')" "ts = TNull # ts'"
              "tokenize (drop 3 cs) = Some ts'"
            by (auto split: if_splits)
          then show ?thesis
          proof cases
            case t
            have ne: "js ''true'' \<noteq> []" "last (js ''true'') \<noteq> 0x5D"
              by (simp_all add: js_def U_def)
            have len: "length (js ''true'') - 1 = 3" by (simp add: js_def)
            have "c # cs = js ''true'' @ drop 3 cs"
              using lit_split [OF t(1) ne(1)] unfolding len .
            with ne show ?thesis using lit [of "js ''true''" 3 TTrue] t np by auto
          next
            case f
            have ne: "js ''false'' \<noteq> []" "last (js ''false'') \<noteq> 0x5D"
              by (simp_all add: js_def U_def)
            have len: "length (js ''false'') - 1 = 4" by (simp add: js_def)
            have "c # cs = js ''false'' @ drop 4 cs"
              using lit_split [OF f(1) ne(1)] unfolding len .
            with ne show ?thesis using lit [of "js ''false''" 4 TFalse] f np by auto
          next
            case n
            have ne: "js ''null'' \<noteq> []" "last (js ''null'') \<noteq> 0x5D"
              by (simp_all add: js_def U_def)
            have len: "length (js ''null'') - 1 = 3" by (simp add: js_def)
            have "c # cs = js ''null'' @ drop 3 cs"
              using lit_split [OF n(1) ne(1)] unfolding len .
            with ne show ?thesis using lit [of "js ''null''" 3 TNull] n np by auto
          qed
        qed
      qed
    qed
  qed
qed

text \<open>An opening bracket among the tokens stands in the text.\<close>

lemma tokenize_LBracket:
  "tokenize s = Some ts \<Longrightarrow> LBracket \<in> set ts \<Longrightarrow> 0x5B \<in> set s"
proof (induction "length s" arbitrary: s ts rule: less_induct)
  case less
  show ?case
  proof (cases s)
    case Nil
    with less.prems show ?thesis by simp
  next
    case (Cons c cs)
    with less.prems have tk: "tokenize (c # cs) = Some ts" by simp
    from tk show ?thesis
    proof (cases rule: tokenize_Cons_cases)
      case space
      with less.hyps [of cs ts] less.prems(2) Cons show ?thesis by simp
    next
      case (punct t ts')
      with less.hyps [of cs ts'] less.prems(2) Cons show ?thesis by auto
    next
      case (str v r ts')
      then obtain pre where "cs = pre @ 0x22 # r" using lex_string_suffix by blast
      with str less.hyps [of r ts'] less.prems(2) Cons show ?thesis by auto
    next
      case (num m e r ts')
      then obtain pre where "c # cs = pre @ r" using lex_number_suffix by blast
      moreover from this have "length r < length s" "set r \<subseteq> set s"
        using lex_number_shorter [OF num(2)] Cons by auto
      ultimately show ?thesis using num less.hyps [of r ts'] less.prems(2) by auto
    next
      case (lit t n w ts')
      have "length (drop n cs) < length s" using Cons by simp
      moreover have "set (drop n cs) \<subseteq> set s" using Cons set_drop_subset [of n cs] by auto
      ultimately show ?thesis using lit less.hyps [of "drop n cs" ts'] less.prems(2) by auto
    qed
  qed
qed

text \<open>A text that ends in a closing bracket has that bracket as its last token.\<close>

lemma tokenize_last_RBracket:
  "tokenize s = Some ts \<Longrightarrow> s \<noteq> [] \<Longrightarrow> last s = 0x5D \<Longrightarrow> ts \<noteq> [] \<and> last ts = RBracket"
proof (induction "length s" arbitrary: s ts rule: less_induct)
  case less
  from less.prems(2) obtain c cs where Cons: "s = c # cs" by (cases s) auto
  with less.prems have tk: "tokenize (c # cs) = Some ts" by simp
  from tk show ?case
  proof (cases rule: tokenize_Cons_cases)
    case space
    show ?thesis
    proof (cases "cs = []")
      case True
      with less.prems(3) Cons space(1) show ?thesis by (simp add: is_ws_def)
    next
      case False
      with less.hyps [of cs ts] less.prems(3) Cons space(2) show ?thesis by simp
    qed
  next
    case (punct t ts')
    show ?thesis
    proof (cases "cs = []")
      case True
      with less.prems(3) Cons punct show ?thesis by auto
    next
      case False
      with less.hyps [of cs ts'] less.prems(3) Cons punct show ?thesis by simp
    qed
  next
    case (str v r ts')
    then obtain pre where pre: "cs = pre @ 0x22 # r" using lex_string_suffix by blast
    show ?thesis
    proof (cases "r = []")
      case True
      with less.prems(3) Cons pre show ?thesis by simp
    next
      case False
      with less.prems(3) Cons pre have "last r = 0x5D" by simp
      moreover have "length r < length s" using Cons pre by simp
      ultimately show ?thesis using less.hyps [of r ts'] str False by simp
    qed
  next
    case (num m e r ts')
    then obtain pre where pre: "c # cs = pre @ r" "pre \<noteq> []" "is_digit (last pre)"
      using lex_number_suffix by blast
    show ?thesis
    proof (cases "r = []")
      case True
      with less.prems(3) Cons pre show ?thesis by (auto simp: is_digit_def)
    next
      case False
      with less.prems(3) Cons pre(1) have "last r = 0x5D" by simp
      moreover have "length r < length s" using Cons lex_number_shorter [OF num(2)] by simp
      ultimately show ?thesis using less.hyps [of r ts'] num False by simp
    qed
  next
    case (lit t n w ts')
    show ?thesis
    proof (cases "drop n cs = []")
      case True
      with less.prems(3) Cons lit(2,4) show ?thesis by simp
    next
      case False
      with less.prems(3) Cons lit(2) have "last (drop n cs) = 0x5D" by simp
      moreover have "length (drop n cs) < length s" using Cons by simp
      ultimately show ?thesis using less.hyps [of "drop n cs" ts'] lit False by simp
    qed
  qed
qed

lemma parse_value_last_RBracket:
    "parse_value st ts = Some v \<Longrightarrow> ts \<noteq> [] \<Longrightarrow> last ts = RBracket \<Longrightarrow>
      LBracket \<in> set ts \<or> list_ex is_FArr st"
  and parse_after_last_RBracket:
    "parse_after v0 st' ts' = Some v \<Longrightarrow> ts' \<noteq> [] \<Longrightarrow> last ts' = RBracket \<Longrightarrow>
      LBracket \<in> set ts' \<or> list_ex is_FArr st'"
proof (induction st ts and v0 st' ts' rule: parse_value_parse_after.induct)
  case (1 st)
  then show ?case by simp
next
  case (2 st t ts)
  then show ?case
    by (auto split: token.splits list.splits if_splits)
next
  case (3 v ts)
  then show ?case by simp
next
  case (4 v acc st ts)
  then show ?case by simp
next
  case (5 v acc k st ts)
  then show ?case
    by (auto split: token.splits list.splits if_splits)
qed

lemma JSON_parse_needs_LBracket:
  assumes "s \<noteq> []" "last s = 0x5D" "0x5B \<notin> set s"
  shows "JSON_parse s = None"
proof (rule ccontr)
  assume "JSON_parse s \<noteq> None"
  then obtain ts v where ts: "tokenize s = Some ts" and v: "parse_value [] ts = Some v"
    by (auto simp: JSON_parse_def split: option.splits)
  from ts assms(1,2) have "ts \<noteq> []" "last ts = RBracket"
    using tokenize_last_RBracket by blast+
  with v have "LBracket \<in> set ts"
    using parse_value_last_RBracket [of "[]" ts v] by simp
  with ts have "0x5B \<in> set s" by (rule tokenize_LBracket)
  with assms(3) show False by simp
qed

lemma array_at_bottom_push: "array_at_bottom st \<Longrightarrow> array_at_bottom (f # st)"
  by (cases st) auto

lemma array_at_bottom_swap:
  "array_at_bottom (f # st) \<Longrightarrow> is_FArr g \<or> st \<noteq> [] \<Longrightarrow> array_at_bottom (g # st)"
  by (cases st) auto

lemma array_at_bottom_pop:
  "array_at_bottom (f # st) \<Longrightarrow> st \<noteq> [] \<Longrightarrow> array_at_bottom st"
  by (cases st) auto

lemma array_at_bottom_FObj: "array_at_bottom (FObj acc k # st) \<Longrightarrow> st \<noteq> []"
  by (cases st) auto

lemma parse_value_bottom_array:
    "parse_value st ts = Some v \<Longrightarrow> array_at_bottom st \<Longrightarrow> is_array v"
  and parse_after_bottom_array:
    "parse_after v0 st' ts' = Some v \<Longrightarrow>
      array_at_bottom st' \<or> (st' = [] \<and> is_array v0) \<Longrightarrow> is_array v"
proof (induction st ts and v0 st' ts' rule: parse_value_parse_after.induct)
  case (1 st)
  then show ?case by simp
next
  case (2 st t ts)
  note bottom = "2.prems"(2)
  show ?case
  proof (cases t)
    case LBrace
    show ?thesis
    proof (cases ts)
      case Nil
      with "2.prems" LBrace show ?thesis by simp
    next
      case (Cons t1 ts1)
      show ?thesis
      proof (cases t1)
        case RBrace
        with "2.IH" "2.prems" LBrace Cons show ?thesis by simp
      next
        case (TString k)
        show ?thesis
        proof (cases ts1)
          case Nil
          with "2.prems" LBrace Cons TString show ?thesis by simp
        next
          case c2: (Cons t2 ts2)
          show ?thesis
          proof (cases t2)
            case Colon
            have "array_at_bottom (FObj [] k # st)"
              using bottom by (rule array_at_bottom_push)
            with "2.IH" "2.prems"(1)
              LBrace Cons TString c2 Colon
            show ?thesis by simp
          qed (use "2.prems" LBrace Cons TString c2 in auto)
        qed
      qed (use "2.prems" LBrace Cons in auto)
    qed
  next
    case LBracket
    show ?thesis
    proof (cases ts)
      case Nil
      have "array_at_bottom (FArr [] # st)" using bottom by (rule array_at_bottom_push)
      with "2.IH" "2.prems"(1) LBracket Nil show ?thesis by simp
    next
      case (Cons t1 ts1)
      show ?thesis
      proof (cases "t1 = RBracket")
        case True
        with "2.IH" "2.prems" LBracket Cons show ?thesis by simp
      next
        case False
        have b: "array_at_bottom (FArr [] # st)" using bottom by (rule array_at_bottom_push)
        from False "2.prems"(1) LBracket Cons
        have "parse_value (FArr [] # st) ts = Some v" by (cases t1) auto
        moreover from False have "parse_value (FArr [] # st) ts = Some v \<Longrightarrow>
            array_at_bottom (FArr [] # st) \<Longrightarrow> is_array v"
          using "2.IH" LBracket Cons by (cases t1) auto
        ultimately show ?thesis using b by blast
      qed
    qed
  next
    case (TString s)
    with "2.IH" "2.prems" show ?thesis by simp
  next
    case (TNumber m e)
    with "2.IH" "2.prems" show ?thesis by simp
  next
    case TTrue
    with "2.IH" "2.prems" show ?thesis by simp
  next
    case TFalse
    with "2.IH" "2.prems" show ?thesis by simp
  next
    case TNull
    with "2.IH" "2.prems" show ?thesis by simp
  qed (use "2.prems" in auto)
next
  case (3 v ts)
  then show ?case by (auto split: if_splits)
next
  case (4 v acc st ts)
  from "4.prems"(2) have bottom: "array_at_bottom (FArr acc # st)" by simp
  show ?case
  proof (cases ts)
    case Nil
    with "4.prems" show ?thesis by simp
  next
    case (Cons t ts1)
    show ?thesis
    proof (cases t)
      case Comma
      have "array_at_bottom (FArr (v # acc) # st)"
        using bottom by (rule array_at_bottom_swap) simp
      with "4.IH" "4.prems"(1) Cons Comma show ?thesis by simp
    next
      case RBracket
      have "array_at_bottom st \<or> (st = [] \<and> is_array (JArray (rev (v # acc))))"
        using bottom array_at_bottom_pop by (cases "st = []") auto
      with "4.IH" "4.prems"(1) Cons RBracket show ?thesis by simp
    qed (use "4.prems" Cons in auto)
  qed
next
  case (5 v acc k st ts)
  from "5.prems"(2) have bottom: "array_at_bottom (FObj acc k # st)" by simp
  then have ne: "st \<noteq> []" by (rule array_at_bottom_FObj)
  show ?case
  proof (cases ts)
    case Nil
    with "5.prems" show ?thesis by simp
  next
    case (Cons t ts1)
    show ?thesis
    proof (cases t)
      case RBrace
      have "array_at_bottom st" using bottom ne by (rule array_at_bottom_pop)
      with "5.IH" "5.prems"(1) Cons RBrace show ?thesis by simp
    next
      case Comma
      show ?thesis
      proof (cases ts1)
        case Nil
        with "5.prems" Cons Comma show ?thesis by simp
      next
        case c2: (Cons t2 ts2)
        show ?thesis
        proof (cases t2)
          case (TString k')
          show ?thesis
          proof (cases ts2)
            case Nil
            with "5.prems" Cons Comma c2 TString show ?thesis by simp
          next
            case c3: (Cons t3 ts3)
            show ?thesis
            proof (cases t3)
              case Colon
              have "array_at_bottom (FObj ((k, v) # acc) k' # st)"
                by (rule array_at_bottom_swap [OF bottom]) (simp add: ne)
              with "5.IH" "5.prems"(1)
                Cons Comma c2 TString c3 Colon
              show ?thesis by simp
            qed (use "5.prems" Cons Comma c2 TString c3 in auto)
          qed
        qed (use "5.prems" Cons Comma c2 in auto)
      qed
    qed (use "5.prems" Cons in auto)
  qed
qed

lemma JSON_parse_array:
  assumes "JSON_parse (0x5B # rest) = Some v"
  shows "is_array v"
proof -
  from assms obtain ts where ts: "tokenize rest = Some ts"
    and v: "parse_value [] (LBracket # ts) = Some v"
    by (auto simp: JSON_parse_def is_ws_def split: option.splits)
  show ?thesis
  proof (cases ts)
    case Nil
    with v show ?thesis by simp
  next
    case (Cons t ts1)
    show ?thesis
    proof (cases "t = RBracket")
      case True
      with v Cons have "parse_after (JArray []) [] ts1 = Some v" by simp
      then show ?thesis by (auto split: if_splits)
    next
      case False
      with v Cons have "parse_value [FArr []] ts = Some v"
        by (cases t) auto
      then show ?thesis using parse_value_bottom_array [of "[FArr []]" ts v] by simp
    qed
  qed
qed

lemma indexOf_first: "c \<notin> set pre \<Longrightarrow> indexOf (pre @ c # rest) c = int (length pre)"
  by (induction pre) (auto simp: Let_def)

lemma indexOf_absent: "c \<notin> set s \<Longrightarrow> indexOf s c = -1"
  by (induction s) (auto simp: Let_def)

lemma lastIndexOf_absent: "c \<notin> set s \<Longrightarrow> lastIndexOf s c = -1"
  by (induction s) (auto simp: Let_def)

lemma lastIndexOf_last: "c \<notin> set post \<Longrightarrow> lastIndexOf (xs @ c # post) c = int (length xs)"
  by (induction xs) (auto simp: Let_def lastIndexOf_absent)

lemma substring_ordered:
  assumes "0 \<le> a" "a \<le> b" "b \<le> int (length s)"
  shows "substring s a b = take (nat (b - a)) (drop (nat a) s)"
    and "substring s b a = take (nat (b - a)) (drop (nat a) s)"
proof -
  have 1: "min (max a 0) (int (length s)) = a" using assms by simp
  have 2: "min (max b 0) (int (length s)) = b" using assms by simp
  have 3: "min a b = a" "max a b = b" "min b a = a" "max b a = b" using assms by simp_all
  show "substring s a b = take (nat (b - a)) (drop (nat a) s)"
    unfolding substring_def Let_def 1 2 3 ..
  show "substring s b a = take (nat (b - a)) (drop (nat a) s)"
    unfolding substring_def Let_def 1 2 3 ..
qed

lemma substring_minus_one:
  assumes "0 \<le> b" "b \<le> int (length s)"
  shows "substring s (-1) b = take (nat b) s"
proof -
  have 1: "min (max (-1) 0) (int (length s)) = 0" by simp
  have 2: "min (max b 0) (int (length s)) = b" using assms by simp
  have 3: "min 0 b = 0" "max 0 b = b" using assms by simp_all
  show ?thesis unfolding substring_def Let_def 1 2 3 by simp
qed

lemma substring_in_order:
  "substring (pre @ mid @ post) (int (length pre)) (int (length pre + length mid)) = mid"
  by (subst substring_ordered(1)) simp_all

lemma substring_swapped:
  "substring (pre @ mid @ post) (int (length pre + length mid)) (int (length pre)) = mid"
  by (subst substring_ordered(2)) simp_all

lemma substring_from_minus_one:
  "substring (pre @ post) (-1) (int (length pre)) = pre"
  by (subst substring_minus_one) simp_all

lemma extract_json_span:
  assumes "0x5B \<notin> set pre" "0x5D \<notin> set post"
  shows "extract_json (pre @ 0x5B # mid @ 0x5D # post) = JSON_parse (0x5B # mid @ [0x5D])"
proof -
  let ?t = "pre @ 0x5B # mid @ 0x5D # post"
  have i: "indexOf ?t 0x5B = int (length pre)" using assms(1) by (rule indexOf_first)
  have "lastIndexOf ((pre @ 0x5B # mid) @ 0x5D # post) 0x5D = int (length (pre @ 0x5B # mid))"
    using assms(2) by (rule lastIndexOf_last)
  then have j: "lastIndexOf ?t 0x5D + 1 = int (length pre + length (0x5B # mid @ [0x5D]))"
    by simp
  have "substring (pre @ (0x5B # mid @ [0x5D]) @ post) (int (length pre))
      (int (length pre + length (0x5B # mid @ [0x5D]))) = 0x5B # mid @ [0x5D]"
    by (rule substring_in_order)
  then have "substring ?t (indexOf ?t 0x5B) (lastIndexOf ?t 0x5D + 1) = 0x5B # mid @ [0x5D]"
    unfolding i j by simp
  then show ?thesis by (simp add: extract_json_def Let_def)
qed

lemma JSON_parse_Nil: "JSON_parse [] = None"
  by (simp add: JSON_parse_def)

lemma extract_json_no_open:
  assumes "0x5B \<notin> set t"
  shows "extract_json t = None"
proof (cases "0x5D \<in> set t")
  case False
  then have "substring t (indexOf t 0x5B) (lastIndexOf t 0x5D + 1) = []"
    using assms by (simp add: indexOf_absent lastIndexOf_absent substring_def Let_def)
  then show ?thesis by (simp add: extract_json_def Let_def JSON_parse_Nil)
next
  case True
  then obtain xs post where t: "t = xs @ 0x5D # post" "0x5D \<notin> set post"
    using split_list_last [of "0x5D" t] by blast
  then have j: "lastIndexOf t 0x5D + 1 = int (length (xs @ [0x5D]))"
    by (simp add: lastIndexOf_last)
  have "substring ((xs @ [0x5D]) @ post) (-1) (int (length (xs @ [0x5D]))) = xs @ [0x5D]"
    by (rule substring_from_minus_one)
  then have "substring t (indexOf t 0x5B) (lastIndexOf t 0x5D + 1) = xs @ [0x5D]"
    unfolding j using assms t(1) by (simp add: indexOf_absent)
  moreover have "JSON_parse (xs @ [0x5D]) = None"
  proof (rule JSON_parse_needs_LBracket)
    show "xs @ [0x5D] \<noteq> []" by simp
    show "last (xs @ [0x5D]) = 0x5D" by simp
    show "0x5B \<notin> set (xs @ [0x5D])" using assms t(1) by simp
  qed
  ultimately show ?thesis by (simp add: extract_json_def Let_def)
qed

text \<open>With an opening bracket and no closing bracket after it, \<open>substring\<close> swaps its
  arguments: what is parsed is the text before the first opening bracket, or the text
  between the last closing and the first opening bracket.\<close>

lemma extract_json_no_close:
  assumes "0x5B \<notin> set pre" "0x5D \<notin> set (pre @ 0x5B # rest)"
  shows "extract_json (pre @ 0x5B # rest) = JSON_parse pre"
proof -
  let ?t = "pre @ 0x5B # rest"
  have i: "indexOf ?t 0x5B = int (length pre)" using assms(1) by (rule indexOf_first)
  have j: "lastIndexOf ?t 0x5D + 1 = 0" using assms(2) by (simp add: lastIndexOf_absent)
  have "substring ([] @ pre @ (0x5B # rest)) (int (length ([] :: jstring) + length pre))
      (int (length ([] :: jstring))) = pre"
    by (rule substring_swapped)
  then have "substring ?t (indexOf ?t 0x5B) (lastIndexOf ?t 0x5D + 1) = pre"
    unfolding i j by simp
  then show ?thesis by (simp add: extract_json_def Let_def)
qed

lemma extract_json_reversed:
  assumes "0x5B \<notin> set (pre @ 0x5D # mid)" "0x5D \<notin> set (mid @ 0x5B # post)"
  shows "extract_json (pre @ 0x5D # mid @ 0x5B # post) = JSON_parse mid"
proof -
  let ?t = "pre @ 0x5D # mid @ 0x5B # post"
  have "indexOf ((pre @ 0x5D # mid) @ 0x5B # post) 0x5B = int (length (pre @ 0x5D # mid))"
    using assms(1) by (rule indexOf_first)
  then have i: "indexOf ?t 0x5B = int (length (pre @ [0x5D]) + length mid)" by simp
  have "lastIndexOf ?t 0x5D = int (length pre)"
    by (rule lastIndexOf_last) (use assms(2) in simp)
  then have j: "lastIndexOf ?t 0x5D + 1 = int (length (pre @ [0x5D]))" by simp
  have "substring ((pre @ [0x5D]) @ mid @ (0x5B # post))
      (int (length (pre @ [0x5D]) + length mid)) (int (length (pre @ [0x5D]))) = mid"
    by (rule substring_swapped)
  then have "substring ?t (indexOf ?t 0x5B) (lastIndexOf ?t 0x5D + 1) = mid"
    unfolding i j by simp
  then show ?thesis by (simp add: extract_json_def Let_def)
qed

text \<open>What the body of the handler throws: the \<open>TypeError\<close> of a text without a second
  piece, or what the constructor of the client throws; nothing has been sent then.\<close>

lemma command_throws:
  "command env c t = (tr, Some e) \<Longrightarrow>
   tr = [] \<and> (e = TypeError (js ''Cannot read properties of undefined'') \<or>
     (\<exists>n. llm_new env (select_llm n) = Some e))"
  by (auto simp: command_def Let_def split: list.splits if_splits option.splits)

lemma handler_body_throws:
  "handler_body env msg = (tr, Some e) \<Longrightarrow>
   tr = [] \<and> (e = TypeError (js ''Cannot read properties of undefined'') \<or>
     (\<exists>n. llm_new env (select_llm n) = Some e))"
  using command_throws [of env "chat_id msg" _ tr e]
  by (auto simp: handler_body_def split: option.splits if_splits)

text \<open>\<open>includes\<close> is the test for a contiguous part.\<close>

lemma startsWith_prefix: "startsWith s p \<longleftrightarrow> prefix p s"
proof
  assume "startsWith s p"
  then have "s = p @ drop (length p) s"
    using append_take_drop_id [of "length p" s] by (simp add: startsWith_def)
  then show "prefix p s" by (rule prefixI)
next
  assume "prefix p s"
  then obtain r where "s = p @ r" by (rule prefixE)
  then show "startsWith s p" by (simp add: startsWith_def)
qed

lemma includes_str_sublist: "includes_str s p \<longleftrightarrow> sublist p s"
proof (induction s)
  case Nil
  then show ?case by auto
next
  case (Cons c cs)
  then show ?case by (simp add: startsWith_prefix sublist_Cons_right)
qed

section \<open>Properties of the handler\<close>

subsection \<open>Extraction of the questions\<close>

text \<open>
  C1. When the first opening bracket of the answer comes before its last closing
  bracket, what is parsed is the text from the one to the other, whatever stands before
  and after: extraction gives the array that this text denotes when it is valid JSON,
  and fails when it is not. Extraction fails for every answer without an opening
  bracket. A failed extraction logs, sends the message about invalid JSON, and sends no
  poll; a successful one hands the value to the loop.
\<close>

theorem extraction_by_brackets:
  "(0x5B \<notin> set pre \<and> 0x5D \<notin> set post \<longrightarrow>
      extract_json (pre @ 0x5B # mid @ 0x5D # post) = JSON_parse (0x5B # mid @ [0x5D]) \<and>
      (\<forall>v. JSON_parse (0x5B # mid @ [0x5D]) = Some v \<longrightarrow> is_array v)) \<and>
   (0x5B \<notin> set t \<longrightarrow> extract_json t = None) \<and>
   (extract_json t = None \<longrightarrow>
      on_response env c (Content_Text t) tr =
        tr @ [Console_Error (js ''Failed to parse JSON from GPT:'') None,
              Send_Message c msg_invalid_json
                (sendMessage env (tr @ [Console_Error (js ''Failed to parse JSON from GPT:'') None])
                   c msg_invalid_json)]) \<and>
   (\<forall>questions. extract_json t = Some questions \<longrightarrow>
      on_response env c (Content_Text t) tr = dispatch env c questions tr)"
proof (intro conjI impI allI)
  assume "0x5B \<notin> set pre \<and> 0x5D \<notin> set post"
  then show "extract_json (pre @ 0x5B # mid @ 0x5D # post) = JSON_parse (0x5B # mid @ [0x5D])"
    using extract_json_span by blast
next
  fix v
  assume "JSON_parse (0x5B # mid @ [0x5D]) = Some v"
  then show "is_array v" by (rule JSON_parse_array)
next
  assume "0x5B \<notin> set t"
  then show "extract_json t = None" by (rule extract_json_no_open)
next
  assume "extract_json t = None"
  then show "on_response env c (Content_Text t) tr =
        tr @ [Console_Error (js ''Failed to parse JSON from GPT:'') None,
              Send_Message c msg_invalid_json
                (sendMessage env (tr @ [Console_Error (js ''Failed to parse JSON from GPT:'') None])
                   c msg_invalid_json)]"
    by (simp add: on_response_def parse_response_def parse_catch_def send_message_def)
next
  fix questions
  assume "extract_json t = Some questions"
  then show "on_response env c (Content_Text t) tr = dispatch env c questions tr"
    by (simp add: on_response_def parse_response_def)
qed

theorem extraction_by_brackets_witness:
  \<open>extract_json (js ''Sure! Here you go: [{"question":"Q?","options":["A","B"],"correctOptionIndex":0,"explanation":"e"}] Hope that helps!'') =
     Some (JArray [record_ok]) \<and>
   extract_json (js ''I cannot help with that.'') = None \<and>
   on_response (world (js ''[]'')) 7 (Content_Text (js ''I cannot help with that.'')) [] =
     [Console_Error (js ''Failed to parse JSON from GPT:'') None,
      Send_Message 7 msg_invalid_json None]\<close>
proof -
  let ?pre = \<open>js ''Sure! Here you go: ''\<close>
  let ?mid = \<open>js ''{"question":"Q?","options":["A","B"],"correctOptionIndex":0,"explanation":"e"}''\<close>
  let ?post = \<open>js '' Hope that helps!''\<close>
  let ?no = \<open>js ''I cannot help with that.''\<close>
  have split: \<open>js ''Sure! Here you go: [{"question":"Q?","options":["A","B"],"correctOptionIndex":0,"explanation":"e"}] Hope that helps!'' =
      ?pre @ 0x5B # ?mid @ 0x5D # ?post\<close>
    by code_simp
  have a: "0x5B \<notin> set ?pre \<and> 0x5D \<notin> set ?post" by code_simp
  have b: "JSON_parse (0x5B # ?mid @ [0x5D]) = Some (JArray [record_ok])" by code_simp
  have c: "0x5B \<notin> set ?no" by code_simp
  have d: "sendMessage (world (js ''[]'')) tr c t = None" for tr c t by (simp add: world_def)
  note inst = extraction_by_brackets [of ?pre ?post ?mid ?no "world (js ''[]'')" 7 "[]"]
  from inst a have "extract_json (?pre @ 0x5B # ?mid @ 0x5D # ?post) =
      JSON_parse (0x5B # ?mid @ [0x5D])"
    by blast
  with b split have 1: \<open>extract_json (js ''Sure! Here you go: [{"question":"Q?","options":["A","B"],"correctOptionIndex":0,"explanation":"e"}] Hope that helps!'') =
     Some (JArray [record_ok])\<close>
    by (simp only:)
  from inst c have 2: "extract_json ?no = None" by blast
  with inst have "on_response (world (js ''[]'')) 7 (Content_Text ?no) [] =
        [] @ [Console_Error (js ''Failed to parse JSON from GPT:'') None,
              Send_Message 7 msg_invalid_json
                (sendMessage (world (js ''[]'')) ([] @ [Console_Error (js ''Failed to parse JSON from GPT:'') None])
                   7 msg_invalid_json)]"
    by blast
  then have 3: "on_response (world (js ''[]'')) 7 (Content_Text ?no) [] =
     [Console_Error (js ''Failed to parse JSON from GPT:'') None,
      Send_Message 7 msg_invalid_json None]"
    by (simp add: d)
  from 1 2 3 show ?thesis by (intro conjI)
qed

theorem extraction_by_brackets_counterexample:
  \<open>0x5D \<notin> set (js ''"ab"['') \<and>
   extract_json (js ''"ab"['') = Some (JString (js ''ab'')) \<and>
   on_response (world (js ''[]'')) 7 (Content_Text (js ''"ab"['')) [] =
     [Send_Message 7 (js ''Done! I have created 2 MCQ question polls.'') None] \<and>
   lastIndexOf (js '']1['') 0x5D < indexOf (js '']1['') 0x5B \<and>
   extract_json (js '']1['') = Some (JNumber 1 0) \<and>
   on_response (world (js ''[]'')) 7 (Content_Text (js '']1['')) [] =
     [Console_Error (js ''Error creating MCQ via GPT:'')
        (Some (TypeError (js ''questions is not iterable''))),
      Send_Message 7 msg_generating_failed None] \<and>
   msg_generating_failed \<noteq> msg_invalid_json\<close>
  by code_simp

subsection \<open>Validation of the records\<close>

text \<open>
  C2. Over records on which no iteration throws, validation is a filtering map: the
  polls sent are those of the records that yield one, in the order of the records, so
  at most as many as there are records. A record is passed over in silence exactly when
  the check of line 339 says so: its question is falsy, or its options or its
  \<open>correctOptionIndex\<close> are absent or \<open>null\<close>. Every poll sent has a question of at most
  200 code units and options of at most 100 each.
\<close>

theorem validation_is_a_filter:
  assumes "list_all no_throw qs"
  shows "\<exists>ext. process_questions env c tr qs = (tr @ ext, None) \<and>
     polls_of ext = List.map_filter (poll_for c) qs \<and>
     length (polls_of ext) \<le> length qs \<and>
     list_all (\<lambda>p. fits 200 (poll_question p) \<and> list_all (fits 100) (poll_options p))
       (polls_of ext) \<and>
     list_all (\<lambda>q. (guard_skips q \<longleftrightarrow> (\<forall>tr0. process_question env c tr0 q = Inr tr0)) \<and>
                   (guard_skips q \<longrightarrow> poll_for c q = None)) qs"
proof -
  from assms obtain tr' where run: "process_questions env c tr qs = (tr', None)"
    using no_throw_loop by blast
  then obtain ext where ext: "tr' = tr @ ext" "polls_of ext = List.map_filter (poll_for c) qs"
    using process_questions_events by blast
  have len: "length (List.map_filter (poll_for c) qs) \<le> length qs"
    by (simp add: List.map_filter_def)
  have "p \<in> set (List.map_filter (poll_for c) qs) \<Longrightarrow>
      fits 200 (poll_question p) \<and> list_all (fits 100) (poll_options p)" for p
    using poll_for_fits [of c _ p] by (auto simp: List.map_filter_def)
  then have cut: "list_all (\<lambda>p. fits 200 (poll_question p) \<and> list_all (fits 100) (poll_options p))
      (List.map_filter (poll_for c) qs)"
    by (simp add: list_all_iff)
  have "(guard_skips q \<longleftrightarrow> (\<forall>tr0. process_question env c tr0 q = Inr tr0)) \<and>
      (guard_skips q \<longrightarrow> poll_for c q = None)" if "q \<in> set qs" for q
  proof -
    from that assms have "no_throw q" by (simp add: list_all_iff)
    then show ?thesis using guard_skips_silent guard_skips_no_poll by blast
  qed
  then have skip: "list_all (\<lambda>q. (guard_skips q \<longleftrightarrow> (\<forall>tr0. process_question env c tr0 q = Inr tr0)) \<and>
                   (guard_skips q \<longrightarrow> poll_for c q = None)) qs"
    by (simp add: list_all_iff)
  from run ext len cut skip show ?thesis by simp
qed

theorem validation_is_a_filter_witness:
  "list_all no_throw [JObject [], record_ok] \<and>
   process_questions (world (js ''[]'')) 7 [] [JObject [], record_ok] =
     ([Send_Poll poll_ok None], None) \<and>
   List.map_filter (poll_for 7) [JObject [], record_ok] = [poll_ok] \<and>
   guard_skips (JObject [])"
proof -
  have a: "list_all no_throw [JObject [], record_ok]" by code_simp
  have b: "process_questions (world (js ''[]'')) 7 [] [JObject [], record_ok] =
     ([Send_Poll poll_ok None], None)"
    by code_simp
  have c: "guard_skips (JObject [])" by code_simp
  from validation_is_a_filter [OF a, of "world (js ''[]'')" 7 "[]"] obtain ext where
    e1: "process_questions (world (js ''[]'')) 7 [] [JObject [], record_ok] = ([] @ ext, None)"
    and e2: "polls_of ext = List.map_filter (poll_for 7) [JObject [], record_ok]"
    by blast
  from e1 have "ext = [Send_Poll poll_ok None]" unfolding b by simp
  with e2 have e3: "polls_of [Send_Poll poll_ok None] =
      List.map_filter (poll_for 7) [JObject [], record_ok]"
    by (simp only:)
  have pe: "polls_of [Send_Poll poll_ok None] = [poll_ok]" by simp
  have d: "List.map_filter (poll_for 7) [JObject [], record_ok] = [poll_ok]"
    using e3 pe by (rule trans [OF sym])
  from a b c d show ?thesis by (intro conjI)
qed

theorem validation_is_a_filter_counterexample:
  \<open>parse_response (Content_Text (js ''[{"question":"Q","options":"AB","correctOptionIndex":0},{"question":"Q?","options":["A","B"],"correctOptionIndex":0,"explanation":"e"}]'')) =
     Some (JArray [record_bad_options, record_ok]) \<and>
   on_response (world (js ''[]'')) 7
     (Content_Text (js ''[{"question":"Q","options":"AB","correctOptionIndex":0},{"question":"Q?","options":["A","B"],"correctOptionIndex":0,"explanation":"e"}]'')) [] =
     [Console_Error (js ''Error creating MCQ via GPT:'')
        (Some (TypeError (js ''q.options?.map is not a function''))),
      Send_Message 7 msg_generating_failed None] \<and>
   poll_for 7 record_ok = Some poll_ok\<close>
  by code_simp

subsection \<open>Dispatch of the polls\<close>

text \<open>
  C3. For a sequence of well-formed questions the loop makes one send attempt per
  question, in the order of the questions, whatever the transport answers; the index of
  the correct option goes to the transport as it is. An attempt that fails is followed
  at once by the log entry and by a message to the chat that names the error, and the
  loop goes on with the next question.
\<close>

theorem dispatch_in_order:
  assumes "list_all valid_entity qs"
  shows "\<exists>ext. process_questions env c tr qs = (tr @ ext, None) \<and>
     map Some (polls_of ext) = map (poll_for c) qs \<and>
     length (polls_of ext) = length qs \<and>
     reported c ext \<and>
     list_all (\<lambda>q. \<exists>p. poll_for c q = Some p \<and>
        field q (js ''correctOptionIndex'') = Some (correct_option_id p)) qs"
  using assms
proof (induction qs arbitrary: tr)
  case Nil
  then show ?case by (simp add: reported.intros)
next
  case (Cons q qs)
  from Cons.prems have vq: "valid_entity q" and vqs: "list_all valid_entity qs" by simp_all
  from vq obtain e1 p where e1: "process_question env c tr q = Inr (tr @ e1)"
    "polls_of e1 = [p]" "poll_for c q = Some p" "reported c e1"
    "field q (js ''correctOptionIndex'') = Some (correct_option_id p)"
    using valid_entity_run by blast
  from Cons.IH [OF vqs, of "tr @ e1"] obtain e2 where e2:
    "process_questions env c (tr @ e1) qs = ((tr @ e1) @ e2, None)"
    "map Some (polls_of e2) = map (poll_for c) qs"
    "length (polls_of e2) = length qs"
    "reported c e2"
    "list_all (\<lambda>q. \<exists>p. poll_for c q = Some p \<and>
        field q (js ''correctOptionIndex'') = Some (correct_option_id p)) qs"
    by blast
  have "process_questions env c tr (q # qs) = (tr @ (e1 @ e2), None)"
    using e1(1) e2(1) by simp
  moreover have "map Some (polls_of (e1 @ e2)) = map (poll_for c) (q # qs)"
    using e1(2,3) e2(2) by (simp add: polls_of_append)
  moreover have "length (polls_of (e1 @ e2)) = length (q # qs)"
    using e1(2) e2(3) by (simp add: polls_of_append)
  moreover have "reported c (e1 @ e2)"
    using e1(4) e2(4) by (rule reported_append)
  moreover have "list_all (\<lambda>q. \<exists>p. poll_for c q = Some p \<and>
        field q (js ''correctOptionIndex'') = Some (correct_option_id p)) (q # qs)"
    using e1(3,5) e2(5) by simp
  ultimately show ?case by blast
qed

theorem dispatch_in_order_witness:
  "list_all valid_entity [record_out_of_range, record_one_option, record_ok] \<and>
   process_questions strict_world 7 [] [record_out_of_range, record_one_option, record_ok] =
     ([Send_Poll (make_poll 7 (JString (js ''Which?'')) [JString (js ''A''), JString (js ''B'')]
          (JNumber 7 0) None)
          (Some (Failure (js ''Error: ETELEGRAM: 400 Bad Request: wrong correct option''))),
       Console_Error (js ''Error sending poll:'')
         (Some (Failure (js ''Error: ETELEGRAM: 400 Bad Request: wrong correct option''))),
       Send_Message 7
         (js ''Oops, something went wrong while sending the poll: Error: ETELEGRAM: 400 Bad Request: wrong correct option'')
         None,
       Send_Poll (make_poll 7 (JString (js ''Only?'')) [JString (js ''A'')] (JNumber 0 0) None)
          (Some (Failure (js ''Error: ETELEGRAM: 400 Bad Request: poll must have at least 2 options''))),
       Console_Error (js ''Error sending poll:'')
         (Some (Failure (js ''Error: ETELEGRAM: 400 Bad Request: poll must have at least 2 options''))),
       Send_Message 7
         (js ''Oops, something went wrong while sending the poll: Error: ETELEGRAM: 400 Bad Request: poll must have at least 2 options'')
         None,
       Send_Poll poll_ok None], None) \<and>
   (\<exists>ext. process_questions strict_world 7 [] [record_out_of_range, record_one_option, record_ok] =
        (ext, None) \<and>
      length (polls_of ext) = 3 \<and> reported 7 ext)"
proof -
  have a: "list_all valid_entity [record_out_of_range, record_one_option, record_ok]"
    by code_simp
  have b: "process_questions strict_world 7 [] [record_out_of_range, record_one_option, record_ok] =
     ([Send_Poll (make_poll 7 (JString (js ''Which?'')) [JString (js ''A''), JString (js ''B'')]
          (JNumber 7 0) None)
          (Some (Failure (js ''Error: ETELEGRAM: 400 Bad Request: wrong correct option''))),
       Console_Error (js ''Error sending poll:'')
         (Some (Failure (js ''Error: ETELEGRAM: 400 Bad Request: wrong correct option''))),
       Send_Message 7
         (js ''Oops, something went wrong while sending the poll: Error: ETELEGRAM: 400 Bad Request: wrong correct option'')
         None,
       Send_Poll (make_poll 7 (JString (js ''Only?'')) [JString (js ''A'')] (JNumber 0 0) None)
          (Some (Failure (js ''Error: ETELEGRAM: 400 Bad Request: poll must have at least 2 options''))),
       Console_Error (js ''Error sending poll:'')
         (Some (Failure (js ''Error: ETELEGRAM: 400 Bad Request: poll must have at least 2 options''))),
       Send_Message 7
         (js ''Oops, something went wrong while sending the poll: Error: ETELEGRAM: 400 Bad Request: poll must have at least 2 options'')
         None,
       Send_Poll poll_ok None], None)"
    by code_simp
  from dispatch_in_order [OF a, of strict_world 7 "[]"]
  have "\<exists>ext. process_questions strict_world 7 [] [record_out_of_range, record_one_option, record_ok] =
        (ext, None) \<and>
      length (polls_of ext) = 3 \<and> reported 7 ext"
    by auto
  with a b show ?thesis by blast
qed

subsection \<open>The summary\<close>

text \<open>
  C4. When the loop over the questions gets to its end, one summary message follows,
  the last event of the run and the only one of its kind, and the number in it is the
  length of the parsed array: every record counts, whether a poll was sent for it or
  not.
\<close>

theorem summary_counts_records:
  assumes "parse_response r = Some (JArray qs)"
    and "process_questions env c tr qs = (tr', None)"
  shows "\<exists>ext out. tr' = tr @ ext \<and>
     on_response env c r tr =
       tr @ ext @
       [Send_Message c
          (js ''Done! I have created '' @ decimal (length qs) @ js '' MCQ question polls.'') out] \<and>
     filter is_summary ext = [] \<and>
     is_summary (Send_Message c
          (js ''Done! I have created '' @ decimal (length qs) @ js '' MCQ question polls.'') out)"
proof -
  from assms(2) obtain ext where ext: "tr' = tr @ ext" "list_all (loop_event c) ext"
    using process_questions_events by blast
  have "on_response env c r tr = send_message env c (msg_done (JArray qs)) tr'"
    using assms by (simp add: on_response_def dispatch_def)
  then have run: "on_response env c r tr =
      tr @ ext @ [Send_Message c
        (js ''Done! I have created '' @ decimal (length qs) @ js '' MCQ question polls.'')
        (sendMessage env tr' c (msg_done (JArray qs)))]"
    using ext(1) by (simp add: send_message_def msg_done_array)
  have none: "filter is_summary ext = []"
    using ext(2) loop_event_not_summary by (auto simp: filter_empty_conv list_all_iff)
  have "is_summary (Send_Message c
      (js ''Done! I have created '' @ decimal (length qs) @ js '' MCQ question polls.'') out)" for out
    by (simp add: startsWith_def js_def)
  with ext(1) run none show ?thesis by blast
qed

theorem summary_counts_records_witness:
  \<open>parse_response
     (Content_Text (js ''[{}, {"question":"Q?","options":["A","B"],"correctOptionIndex":0,"explanation":"e"}]'')) =
     Some (JArray [JObject [], record_ok]) \<and>
   process_questions (world (js ''[]'')) 7 [] [JObject [], record_ok] =
     ([Send_Poll poll_ok None], None) \<and>
   (\<exists>out. on_response (world (js ''[]'')) 7
     (Content_Text (js ''[{}, {"question":"Q?","options":["A","B"],"correctOptionIndex":0,"explanation":"e"}]''))
     [] =
     [Send_Poll poll_ok None,
      Send_Message 7 (js ''Done! I have created 2 MCQ question polls.'') out])\<close>
proof -
  let ?r = \<open>Content_Text (js ''[{}, {"question":"Q?","options":["A","B"],"correctOptionIndex":0,"explanation":"e"}]'')\<close>
  have a: "parse_response ?r = Some (JArray [JObject [], record_ok])" by code_simp
  have b: "process_questions (world (js ''[]'')) 7 [] [JObject [], record_ok] =
      ([Send_Poll poll_ok None], None)"
    by code_simp
  have c: "js ''Done! I have created '' @ decimal (length [JObject [], record_ok]) @
      js '' MCQ question polls.'' = js ''Done! I have created 2 MCQ question polls.''"
    by code_simp
  from summary_counts_records [OF a b] obtain ext out where
    e: "[Send_Poll poll_ok None] = [] @ ext"
    and run: "on_response (world (js ''[]'')) 7 ?r [] =
       [] @ ext @
       [Send_Message 7
          (js ''Done! I have created '' @ decimal (length [JObject [], record_ok]) @
           js '' MCQ question polls.'') out]"
    by blast
  have "on_response (world (js ''[]'')) 7 ?r [] =
      [Send_Poll poll_ok None,
       Send_Message 7 (js ''Done! I have created 2 MCQ question polls.'') out]"
    using run e unfolding c by simp
  with a b show ?thesis by blast
qed

theorem summary_counts_records_counterexample:
  \<open>on_response (world (js ''[]'')) 7 (Content_Text (js ''[{}]'')) [] =
     [Send_Message 7 (js ''Done! I have created 1 MCQ question polls.'') None] \<and>
   polls_of (on_response (world (js ''[]'')) 7 (Content_Text (js ''[{}]'')) []) = []\<close>
  by code_simp

subsection \<open>Model names\<close>

text \<open>
  C5. A token resolves when, and only when, some name of the registry equals it once
  both are in lower case, and it resolves to such a name of the registry; lower case is
  what \<open>toLowerCase\<close> of the platform gives. A command with content and a token that
  resolves to nothing gets one message, the one about an invalid model name; the model
  is not called and no poll is sent.
\<close>

theorem model_resolution:
  "((\<exists>m. resolve_model env tok = Some m) \<longleftrightarrow>
      (\<exists>m \<in> set (supportedModels env). toLowerCase env m = toLowerCase env tok)) \<and>
   (\<forall>m. resolve_model env tok = Some m \<longrightarrow>
      m \<in> set (supportedModels env) \<and> toLowerCase env m = toLowerCase env tok) \<and>
   (msg_text msg = Some t \<and> startsWith t trigger \<and> split t 0x20 = u # tok # contentArr \<and>
    join contentArr (js '' '') \<noteq> [] \<and> tok \<noteq> [] \<and>
    resolve_model env tok = None \<longrightarrow>
      handler env msg =
        ([Send_Message (chat_id msg) msg_invalid_model
            (sendMessage env [] (chat_id msg) msg_invalid_model)], None))"
proof (intro conjI allI impI)
  show "(\<exists>m. resolve_model env tok = Some m) \<longleftrightarrow>
      (\<exists>m \<in> set (supportedModels env). toLowerCase env m = toLowerCase env tok)"
    using resolve_model_None [of env tok] by auto
next
  fix m
  assume "resolve_model env tok = Some m"
  then show "m \<in> set (supportedModels env)" "toLowerCase env m = toLowerCase env tok"
    using resolve_model_Some by blast+
next
  assume a: "msg_text msg = Some t \<and> startsWith t trigger \<and> split t 0x20 = u # tok # contentArr \<and>
    join contentArr (js '' '') \<noteq> [] \<and> tok \<noteq> [] \<and>
    resolve_model env tok = None"
  then have "tok \<in> set (split t 0x20)" by simp
  then have fp: "first_piece tok = tok" by (rule first_piece_of_piece)
  have "handler_body env msg = command env (chat_id msg) t"
    using a handler_command by blast
  also have "\<dots> = (send_message env (chat_id msg) msg_invalid_model [], None)"
    using a fp by (simp add: command_def Let_def)
  finally show "handler env msg =
        ([Send_Message (chat_id msg) msg_invalid_model
            (sendMessage env [] (chat_id msg) msg_invalid_model)], None)"
    by (simp add: handler_def send_message_def)
qed

text \<open>In the example world \<open>GPT-4O\<close> resolves to \<open>gpt-4o\<close>; the part \<open>gpt-4\<close> of a name
  resolves to nothing; a name written with the Kelvin sign, which \<open>toLowerCase\<close> turns
  into \<open>k\<close>, resolves; and an unknown name gets the message.\<close>

theorem model_resolution_witness:
  "resolve_model (world (js ''[]'')) (js ''GPT-4O'') = Some (js ''gpt-4o'') \<and>
   resolve_model (world (js ''[]'')) (js ''gpt-4'') = None \<and>
   resolve_model (world (js ''[]'')) (js ''claude-3-hai'' @ [0x212A] @ js ''u-20240307'') =
     Some (js ''claude-3-haiku-20240307'') \<and>
   handler (world (js ''[]''))
     \<lparr>chat_id = 7, msg_text = Some (js ''/make_mcq unknownmodel some content'')\<rparr> =
   ([Send_Message 7 msg_invalid_model None], None)"
proof -
  let ?t = "js ''/make_mcq unknownmodel some content''"
  let ?msg = "\<lparr>chat_id = 7, msg_text = Some ?t\<rparr>"
  have r1: "resolve_model (world (js ''[]'')) (js ''GPT-4O'') = Some (js ''gpt-4o'')"
    by code_simp
  have r2: "resolve_model (world (js ''[]'')) (js ''gpt-4'') = None"
    by code_simp
  have r3: "resolve_model (world (js ''[]'')) (js ''claude-3-hai'' @ [0x212A] @ js ''u-20240307'') =
     Some (js ''claude-3-haiku-20240307'')"
    by code_simp
  have a: "msg_text ?msg = Some ?t \<and> startsWith ?t trigger \<and>
    split ?t 0x20 = js ''/make_mcq'' # js ''unknownmodel'' # [js ''some'', js ''content''] \<and>
    join [js ''some'', js ''content''] (js '' '') \<noteq> [] \<and> js ''unknownmodel'' \<noteq> [] \<and>
    resolve_model (world (js ''[]'')) (js ''unknownmodel'') = None"
    by code_simp
  have b: "sendMessage (world (js ''[]'')) [] 7 msg_invalid_model = None"
    by (simp add: world_def)
  from model_resolution [of "world (js ''[]'')" "js ''unknownmodel''" ?msg ?t "js ''/make_mcq''"
      "[js ''some'', js ''content'']"] a
  have "handler (world (js ''[]'')) ?msg =
        ([Send_Message (chat_id ?msg) msg_invalid_model
            (sendMessage (world (js ''[]'')) [] (chat_id ?msg) msg_invalid_model)], None)"
    by blast
  then have "handler (world (js ''[]'')) ?msg = ([Send_Message 7 msg_invalid_model None], None)"
    by (simp add: b)
  with r1 r2 r3 show ?thesis by blast
qed

theorem model_resolution_counterexample:
  "split (js ''/make_mcq nomodel'') 0x20 = [js ''/make_mcq'', js ''nomodel''] \<and>
   resolve_model (world (js ''[]'')) (js ''nomodel'') = None \<and>
   handler (world (js ''[]'')) \<lparr>chat_id = 7, msg_text = Some (js ''/make_mcq nomodel'')\<rparr> =
     ([Send_Message 7 msg_no_content None], None) \<and>
   msg_no_content \<noteq> msg_invalid_model"
  by code_simp

subsection \<open>The command and the help text\<close>

text \<open>
  C6. A text is taken for the command when it starts with the trigger; that is a test
  of the first characters, so the first space-delimited piece need only begin with the
  trigger. A text that is not empty and does not start with it gets the help text and
  nothing else, and the help text holds every name of the registry.
\<close>

theorem command_routing:
  "msg_text msg = Some t \<and> t \<noteq> [] \<longrightarrow>
     (startsWith t trigger \<longrightarrow> handler_body env msg = command env (chat_id msg) t) \<and>
     (\<not> startsWith t trigger \<longrightarrow>
        handler env msg =
          ([Send_Message (chat_id msg) (msg_help (supportedModels env))
              (sendMessage env [] (chat_id msg) (msg_help (supportedModels env)))], None)) \<and>
     (startsWith t trigger \<longleftrightarrow> startsWith (first_piece t) trigger) \<and>
     (\<forall>m \<in> set (supportedModels env). sublist m (msg_help (supportedModels env)))"
proof (intro impI)
  assume a: "msg_text msg = Some t \<and> t \<noteq> []"
  have 1: "startsWith t trigger \<longrightarrow> handler_body env msg = command env (chat_id msg) t"
    using a by (simp add: handler_body_def)
  have 2: "\<not> startsWith t trigger \<longrightarrow>
        handler env msg =
          ([Send_Message (chat_id msg) (msg_help (supportedModels env))
              (sendMessage env [] (chat_id msg) (msg_help (supportedModels env)))], None)"
    using a by (simp add: handler_def handler_body_def send_message_def)
  have 3: "startsWith t trigger \<longleftrightarrow> startsWith (first_piece t) trigger"
    using startsWith_takeWhile [OF trigger_no_space, of t] by (simp add: first_piece_takeWhile)
  have 4: "\<forall>m \<in> set (supportedModels env). sublist m (msg_help (supportedModels env))"
    by (simp add: sublist_help)
  from 1 2 3 4 show "(startsWith t trigger \<longrightarrow> handler_body env msg = command env (chat_id msg) t) \<and>
     (\<not> startsWith t trigger \<longrightarrow>
        handler env msg =
          ([Send_Message (chat_id msg) (msg_help (supportedModels env))
              (sendMessage env [] (chat_id msg) (msg_help (supportedModels env)))], None)) \<and>
     (startsWith t trigger \<longleftrightarrow> startsWith (first_piece t) trigger) \<and>
     (\<forall>m \<in> set (supportedModels env). sublist m (msg_help (supportedModels env)))"
    by blast
qed

theorem command_routing_witness:
  "handler (world (js ''[]'')) \<lparr>chat_id = 7, msg_text = Some (js ''hello'')\<rparr> =
     ([Send_Message 7 (msg_help example_models) None], None) \<and>
   sublist (js ''o1-preview'') (msg_help example_models)"
proof -
  let ?msg = "\<lparr>chat_id = 7, msg_text = Some (js ''hello'')\<rparr>"
  have a: "msg_text ?msg = Some (js ''hello'') \<and> js ''hello'' \<noteq> []" by (simp add: js_def)
  have b: "\<not> startsWith (js ''hello'') trigger" by code_simp
  have c: "js ''o1-preview'' \<in> set (supportedModels (world (js ''[]'')))"
    by (simp add: world_def example_models_def)
  have d: "supportedModels (world (js ''[]'')) = example_models" by (simp add: world_def)
  have e: "sendMessage (world (js ''[]'')) [] 7 (msg_help example_models) = None"
    by (simp add: world_def)
  from command_routing [of ?msg "js ''hello''" "world (js ''[]'')"] a b c
  show ?thesis by (simp add: d e)
qed

theorem command_routing_counterexample:
  "first_piece (js ''/make_mcqs gpt-4o hi'') = js ''/make_mcqs'' \<and>
   js ''/make_mcqs'' \<noteq> trigger \<and>
   handler (world (js ''[]'')) \<lparr>chat_id = 7, msg_text = Some (js ''/make_mcqs gpt-4o hi'')\<rparr> =
     ([Invoke \<lparr>provider = ChatOpenAI, temperature = 7 / 10, llm_modelName = js ''gpt-4o''\<rparr>
         (build_prompt (js ''hi'')),
       Send_Message 7 (js ''Done! I have created 0 MCQ question polls.'') None], None)"
  by code_simp

subsection \<open>Missing content, missing model name\<close>

text \<open>
  C7. The text \<open>/make_mcq\<close> alone has neither model name nor content. Splitting it
  gives one piece, \<open>numQsStr\<close> is \<open>undefined\<close>, and \<open>numQsStr.split\<close> throws before
  either check is reached: the outer \<open>catch\<close> logs the \<open>TypeError\<close> and the chat gets no
  reply at all, in every world.
\<close>

theorem bare_trigger_gets_no_reply:
  "handler env \<lparr>chat_id = c, msg_text = Some (js ''/make_mcq'')\<rparr> =
     ([Console_Error (js ''Error processing message:'')
         (Some (TypeError (js ''Cannot read properties of undefined'')))], None)"
proof -
  have "split (js ''/make_mcq'') 0x20 = [js ''/make_mcq'']" by code_simp
  moreover have "startsWith (js ''/make_mcq'') trigger" by code_simp
  moreover have "js ''/make_mcq'' \<noteq> []" by (simp add: js_def)
  ultimately show ?thesis
    by (simp add: handler_def handler_body_def command_def)
qed

text \<open>With a second piece the two checks answer, the one for the content first.\<close>

lemma missing_content_reply:
  assumes "msg_text msg = Some t" "startsWith t trigger"
    and "split t 0x20 = u # tok # contentArr" "join contentArr (js '' '') = []"
  shows "handler env msg =
    ([Send_Message (chat_id msg) msg_no_content (sendMessage env [] (chat_id msg) msg_no_content)],
     None)"
proof -
  have "handler_body env msg = command env (chat_id msg) t"
    using assms(1,2) by (rule handler_command)
  then show ?thesis using assms(3,4)
    by (simp add: handler_def command_def Let_def send_message_def)
qed

lemma missing_model_reply:
  assumes "msg_text msg = Some t" "startsWith t trigger"
    and "split t 0x20 = u # [] # contentArr" "join contentArr (js '' '') \<noteq> []"
  shows "handler env msg =
    ([Send_Message (chat_id msg) msg_no_model (sendMessage env [] (chat_id msg) msg_no_model)],
     None)"
proof -
  have "handler_body env msg = command env (chat_id msg) t"
    using assms(1,2) by (rule handler_command)
  moreover have "first_piece [] = []" by (simp add: first_piece_def)
  ultimately show ?thesis using assms(3,4)
    by (simp add: handler_def command_def Let_def send_message_def)
qed

lemma missing_replies_differ:
  "msg_no_content \<noteq> msg_no_model \<and> msg_no_content \<noteq> msg_invalid_model \<and>
   msg_no_model \<noteq> msg_invalid_model"
  by code_simp

subsection \<open>The client of the language model\<close>

text \<open>
  C8. The model name that the registry gave decides provider and temperature: a name
  that has \<open>claude\<close> as a contiguous part goes to the Anthropic client with temperature
  0.7; any other name goes to the OpenAI client, with temperature 1 when the name is
  \<open>o1-preview\<close> and 0.7 otherwise. The client so chosen, carrying the name of the
  registry, is the one the handler invokes.
\<close>

theorem provider_and_temperature:
  assumes "msg_text msg = Some t"
    and "startsWith t trigger"
    and "split t 0x20 = u # tok # contentArr"
    and "join contentArr (js '' '') \<noteq> []"
    and "tok \<noteq> []"
    and "resolve_model env tok = Some n"
    and "n \<noteq> []"
    and "llm_new env (select_llm n) = None"
  shows "select_llm n =
           (if sublist (js ''claude'') n
            then \<lparr>provider = ChatAnthropic, temperature = 7 / 10, llm_modelName = n\<rparr>
            else if n = js ''o1-preview''
            then \<lparr>provider = ChatOpenAI, temperature = 1, llm_modelName = n\<rparr>
            else \<lparr>provider = ChatOpenAI, temperature = 7 / 10, llm_modelName = n\<rparr>)
         \<and> (\<exists>tr. handler env msg =
               (Invoke
                  \<lparr>provider = (if sublist (js ''claude'') n then ChatAnthropic else ChatOpenAI),
                   temperature =
                     (if \<not> sublist (js ''claude'') n \<and> n = js ''o1-preview'' then 1 else 7 / 10),
                   llm_modelName = n\<rparr>
                  (build_prompt (join contentArr (js '' ''))) # tr, None))"
proof
  show sel: "select_llm n =
           (if sublist (js ''claude'') n
            then \<lparr>provider = ChatAnthropic, temperature = 7 / 10, llm_modelName = n\<rparr>
            else if n = js ''o1-preview''
            then \<lparr>provider = ChatOpenAI, temperature = 1, llm_modelName = n\<rparr>
            else \<lparr>provider = ChatOpenAI, temperature = 7 / 10, llm_modelName = n\<rparr>)"
    by (simp add: select_llm_def includes_str_sublist)
  have rec: "select_llm n =
      \<lparr>provider = (if sublist (js ''claude'') n then ChatAnthropic else ChatOpenAI),
       temperature =
         (if \<not> sublist (js ''claude'') n \<and> n = js ''o1-preview'' then 1 else 7 / 10),
       llm_modelName = n\<rparr>"
    unfolding sel by simp
  have "handler_body env msg = command env (chat_id msg) t"
    using assms(1,2) by (rule handler_command)
  also have "\<dots> = (generate env (chat_id msg) (select_llm n)
      (build_prompt (join contentArr (js '' ''))), None)"
    using assms(3-8) by (rule command_resolved)
  finally have "handler env msg = (generate env (chat_id msg) (select_llm n)
      (build_prompt (join contentArr (js '' ''))), None)"
    by (simp add: handler_def)
  then have "\<exists>tr. handler env msg =
      (Invoke (select_llm n) (build_prompt (join contentArr (js '' ''))) # tr, None)"
    using generate_starts [of env "chat_id msg" "select_llm n"] by auto
  then show "\<exists>tr. handler env msg =
               (Invoke
                  \<lparr>provider = (if sublist (js ''claude'') n then ChatAnthropic else ChatOpenAI),
                   temperature =
                     (if \<not> sublist (js ''claude'') n \<and> n = js ''o1-preview'' then 1 else 7 / 10),
                   llm_modelName = n\<rparr>
                  (build_prompt (join contentArr (js '' ''))) # tr, None)"
    unfolding rec .
qed

text \<open>Three commands in the example world, one for each client: a name with \<open>claude\<close>
  in it, \<open>o1-preview\<close>, and another name.\<close>

theorem provider_and_temperature_witness:
  "(\<exists>tr. handler (world (js ''[]''))
      \<lparr>chat_id = 7, msg_text = Some (js ''/make_mcq Claude-3-5-Sonnet-20240620 the water cycle'')\<rparr> =
     (Invoke \<lparr>provider = ChatAnthropic, temperature = 7 / 10,
              llm_modelName = js ''claude-3-5-sonnet-20240620''\<rparr>
        (build_prompt (js ''the water cycle'')) # tr, None)) \<and>
   (\<exists>tr. handler (world (js ''[]''))
      \<lparr>chat_id = 7, msg_text = Some (js ''/make_mcq O1-Preview the water cycle'')\<rparr> =
     (Invoke \<lparr>provider = ChatOpenAI, temperature = 1, llm_modelName = js ''o1-preview''\<rparr>
        (build_prompt (js ''the water cycle'')) # tr, None)) \<and>
   (\<exists>tr. handler (world (js ''[]''))
      \<lparr>chat_id = 7, msg_text = Some (js ''/make_mcq gpt-4o the water cycle'')\<rparr> =
     (Invoke \<lparr>provider = ChatOpenAI, temperature = 7 / 10, llm_modelName = js ''gpt-4o''\<rparr>
        (build_prompt (js ''the water cycle'')) # tr, None))"
proof -
  let ?w = "world (js ''[]'')"
  let ?c = "[js ''the'', js ''water'', js ''cycle'']"
  have 4: "join ?c (js '' '') \<noteq> []" by code_simp
  have 8: "join ?c (js '' '') = js ''the water cycle''" by code_simp
  have new: "llm_new ?w l = None" for l by (simp add: world_def)
  have A: "\<exists>tr. handler ?w
      \<lparr>chat_id = 7, msg_text = Some (js ''/make_mcq Claude-3-5-Sonnet-20240620 the water cycle'')\<rparr> =
     (Invoke \<lparr>provider = ChatAnthropic, temperature = 7 / 10,
              llm_modelName = js ''claude-3-5-sonnet-20240620''\<rparr>
        (build_prompt (js ''the water cycle'')) # tr, None)"
  proof -
    let ?t = "js ''/make_mcq Claude-3-5-Sonnet-20240620 the water cycle''"
    let ?msg = "\<lparr>chat_id = 7, msg_text = Some ?t\<rparr>"
    have 1: "msg_text ?msg = Some ?t" by simp
    have 2: "startsWith ?t trigger" by code_simp
    have 3: "split ?t 0x20 = js ''/make_mcq'' # js ''Claude-3-5-Sonnet-20240620'' # ?c"
      by code_simp
    have 5: "js ''Claude-3-5-Sonnet-20240620'' \<noteq> []" by code_simp
    have 6: "resolve_model ?w (js ''Claude-3-5-Sonnet-20240620'') =
        Some (js ''claude-3-5-sonnet-20240620'')"
      by code_simp
    have 7: "js ''claude-3-5-sonnet-20240620'' \<noteq> []" by code_simp
    have s: "sublist (js ''claude'') (js ''claude-3-5-sonnet-20240620'')" by code_simp
    from provider_and_temperature [OF 1 2 3 4 5 6 7 new]
    have "\<exists>tr. handler ?w ?msg =
        (Invoke
           \<lparr>provider = (if sublist (js ''claude'') (js ''claude-3-5-sonnet-20240620'')
                         then ChatAnthropic else ChatOpenAI),
            temperature =
              (if \<not> sublist (js ''claude'') (js ''claude-3-5-sonnet-20240620'') \<and>
                  js ''claude-3-5-sonnet-20240620'' = js ''o1-preview'' then 1 else 7 / 10),
            llm_modelName = js ''claude-3-5-sonnet-20240620''\<rparr>
           (build_prompt (join ?c (js '' ''))) # tr, None)"
      by (rule conjunct2)
    then show ?thesis unfolding 8 if_P [OF s] by (simp only: s not_True_eq_False simp_thms if_False)
  qed
  have B: "\<exists>tr. handler ?w
      \<lparr>chat_id = 7, msg_text = Some (js ''/make_mcq O1-Preview the water cycle'')\<rparr> =
     (Invoke \<lparr>provider = ChatOpenAI, temperature = 1, llm_modelName = js ''o1-preview''\<rparr>
        (build_prompt (js ''the water cycle'')) # tr, None)"
  proof -
    let ?t = "js ''/make_mcq O1-Preview the water cycle''"
    let ?msg = "\<lparr>chat_id = 7, msg_text = Some ?t\<rparr>"
    have 1: "msg_text ?msg = Some ?t" by simp
    have 2: "startsWith ?t trigger" by code_simp
    have 3: "split ?t 0x20 = js ''/make_mcq'' # js ''O1-Preview'' # ?c"
      by code_simp
    have 5: "js ''O1-Preview'' \<noteq> []" by code_simp
    have 6: "resolve_model ?w (js ''O1-Preview'') = Some (js ''o1-preview'')"
      by code_simp
    have 7: "js ''o1-preview'' \<noteq> []" by code_simp
    have s: "\<not> sublist (js ''claude'') (js ''o1-preview'')" by code_simp
    from provider_and_temperature [OF 1 2 3 4 5 6 7 new]
    have "\<exists>tr. handler ?w ?msg =
        (Invoke
           \<lparr>provider = (if sublist (js ''claude'') (js ''o1-preview'')
                         then ChatAnthropic else ChatOpenAI),
            temperature =
              (if \<not> sublist (js ''claude'') (js ''o1-preview'') \<and>
                  js ''o1-preview'' = js ''o1-preview'' then 1 else 7 / 10),
            llm_modelName = js ''o1-preview''\<rparr>
           (build_prompt (join ?c (js '' ''))) # tr, None)"
      by (rule conjunct2)
    then show ?thesis unfolding 8 by (simp only: s simp_thms if_True if_False)
  qed
  have C: "\<exists>tr. handler ?w
      \<lparr>chat_id = 7, msg_text = Some (js ''/make_mcq gpt-4o the water cycle'')\<rparr> =
     (Invoke \<lparr>provider = ChatOpenAI, temperature = 7 / 10, llm_modelName = js ''gpt-4o''\<rparr>
        (build_prompt (js ''the water cycle'')) # tr, None)"
  proof -
    let ?t = "js ''/make_mcq gpt-4o the water cycle''"
    let ?msg = "\<lparr>chat_id = 7, msg_text = Some ?t\<rparr>"
    have 1: "msg_text ?msg = Some ?t" by simp
    have 2: "startsWith ?t trigger" by code_simp
    have 3: "split ?t 0x20 = js ''/make_mcq'' # js ''gpt-4o'' # ?c"
      by code_simp
    have 5: "js ''gpt-4o'' \<noteq> []" by code_simp
    have 6: "resolve_model ?w (js ''gpt-4o'') = Some (js ''gpt-4o'')"
      by code_simp
    have s: "\<not> sublist (js ''claude'') (js ''gpt-4o'')" by code_simp
    have o: "js ''gpt-4o'' \<noteq> js ''o1-preview''" by code_simp
    from provider_and_temperature [OF 1 2 3 4 5 6 5 new]
    have "\<exists>tr. handler ?w ?msg =
        (Invoke
           \<lparr>provider = (if sublist (js ''claude'') (js ''gpt-4o'')
                         then ChatAnthropic else ChatOpenAI),
            temperature =
              (if \<not> sublist (js ''claude'') (js ''gpt-4o'') \<and>
                  js ''gpt-4o'' = js ''o1-preview'' then 1 else 7 / 10),
            llm_modelName = js ''gpt-4o''\<rparr>
           (build_prompt (join ?c (js '' ''))) # tr, None)"
      by (rule conjunct2)
    then show ?thesis unfolding 8 by (simp only: s o simp_thms if_True if_False)
  qed
  from A B C show ?thesis by blast
qed

subsection \<open>The outer catch\<close>

text \<open>
  C9. The handler itself never throws: what its body throws, the outer \<open>catch\<close> logs,
  and it does nothing else; nothing has been sent by then. That covers what is thrown
  in the handler and the rejections of the calls it awaits. The promise of a
  \<open>sendMessage\<close> is not awaited, so its rejection reaches no \<open>catch\<close> of the handler.
\<close>

theorem handler_never_throws:
  "snd (handler env msg) = None \<and>
   (\<forall>tr e. handler_body env msg = (tr, Some e) \<longrightarrow>
      tr = [] \<and>
      handler env msg = ([Console_Error (js ''Error processing message:'') (Some e)], None)) \<and>
   (\<forall>tr. handler_body env msg = (tr, None) \<longrightarrow> handler env msg = (tr, None))"
  using handler_body_throws [of env msg]
  by (cases "handler_body env msg") (auto simp: handler_def split: option.splits)

theorem handler_never_throws_witness:
  "handler_body (world (js ''[]'')) \<lparr>chat_id = 7, msg_text = Some (js ''/make_mcq'')\<rparr> =
     ([], Some (TypeError (js ''Cannot read properties of undefined''))) \<and>
   handler (world (js ''[]'')) \<lparr>chat_id = 7, msg_text = Some (js ''/make_mcq'')\<rparr> =
     ([Console_Error (js ''Error processing message:'')
        (Some (TypeError (js ''Cannot read properties of undefined'')))], None)"
proof -
  let ?msg = "\<lparr>chat_id = 7, msg_text = Some (js ''/make_mcq'')\<rparr>"
  have a: "handler_body (world (js ''[]'')) ?msg =
      ([], Some (TypeError (js ''Cannot read properties of undefined'')))"
    by code_simp
  with handler_never_throws [of "world (js ''[]'')" ?msg]
  have "handler (world (js ''[]'')) ?msg =
     ([Console_Error (js ''Error processing message:'')
        (Some (TypeError (js ''Cannot read properties of undefined'')))], None)"
    by blast
  with a show ?thesis by (intro conjI)
qed

theorem handler_never_throws_counterexample:
  "handler deaf_world \<lparr>chat_id = 7, msg_text = Some (js ''hello'')\<rparr> =
     ([Send_Message 7 (msg_help example_models)
         (Some (Failure (js ''Error: ETELEGRAM: 403 Forbidden'')))], None)"
  by code_simp

subsection \<open>Messages without text\<close>

text \<open>
  C10. A message that carries no text is ignored: the handler returns at once, with
  no reply, no call of the model and no poll.
\<close>

theorem no_text_no_reply:
  "msg_text msg = None \<Longrightarrow> handler env msg = ([], None)"
  by (simp add: handler_def handler_body_def)

theorem no_text_no_reply_witness:
  "msg_text \<lparr>chat_id = 7, msg_text = None\<rparr> = None \<and>
   handler (world (js ''[]'')) \<lparr>chat_id = 7, msg_text = None\<rparr> = ([], None)"
  using no_text_no_reply [of "\<lparr>chat_id = 7, msg_text = None\<rparr>" "world (js ''[]'')"]
  by simp

end
